theory Spec2Isabelle
  imports Complex_Main "HOL-Library.AList"
begin

section \<open>Python values, exceptions and strings\<close>

text \<open>
  The backend (\<^verbatim>\<open>assignment1/backend_code-app.py\<close>) is a Flask application over one global
  NetworkX \<^verbatim>\<open>DiGraph\<close>. Every handler receives parsed JSON (or a parsed data frame), reads
  and mutates the global graph, and hands a Python dictionary to \<^verbatim>\<open>jsonify\<close>. The
  model passes the graph explicitly: a handler takes the graph and the request and returns
  the HTTP response (body and status) together with the graph it leaves behind.

  Python objects that reach \<^verbatim>\<open>jsonify\<close> are values of \<open>pyval\<close>. A dictionary is an
  association list in insertion order. \<open>PResponse\<close> is a Flask \<^verbatim>\<open>Response\<close> object
  (its JSON body and status); it is the one kind of value here that the JSON encoder
  rejects. A Python float is carried as the rational number that the double is exactly;
  the arithmetic on floats rounds as the machine does (\<open>round_double\<close> below).
\<close>

datatype pyval =
    PNone
  | PBool bool
  | PInt int
  | PFloat rat
  | PStr string
  | PList "pyval list"
  | PDict "(string \<times> pyval) list"
  | PResponse pyval nat

datatype exn =
    AttributeError string string
  | KeyError string
  | TypeError string
  | ParserError string

type_synonym response = "pyval \<times> nat"

fun type_name :: "pyval \<Rightarrow> string" where
  "type_name PNone = ''NoneType''"
| "type_name (PBool b) = ''bool''"
| "type_name (PInt i) = ''int''"
| "type_name (PFloat r) = ''float''"
| "type_name (PStr s) = ''str''"
| "type_name (PList xs) = ''list''"
| "type_name (PDict kvs) = ''dict''"
| "type_name (PResponse b s) = ''Response''"

definition quote :: "string \<Rightarrow> string" where
  "quote s = [CHR 0x27] @ s @ [CHR 0x27]"

text \<open>\<^verbatim>\<open>str(e)\<close> for the exceptions the handlers can meet.\<close>

fun str_exn :: "exn \<Rightarrow> string" where
  "str_exn (AttributeError ty attr) =
     quote ty @ '' object has no attribute '' @ quote attr"
| "str_exn (KeyError k) = quote k"
| "str_exn (TypeError m) = m"
| "str_exn (ParserError m) = m"

text \<open>
  \<^verbatim>\<open>str.strip()\<close> removes leading and trailing whitespace. Characters are code points
  below 256; the whitespace among them is what \<^verbatim>\<open>str.isspace\<close> accepts there.
\<close>

definition is_space :: "char \<Rightarrow> bool" where
  "is_space c = (c \<in> set [CHR 0x09, CHR 0x0A, CHR 0x0B, CHR 0x0C, CHR 0x0D,
                          CHR 0x1C, CHR 0x1D, CHR 0x1E, CHR 0x1F, CHR 0x20,
                          CHR 0x85, CHR 0xA0])"

definition strip :: "string \<Rightarrow> string" where
  "strip s = rev (dropWhile is_space (rev (dropWhile is_space s)))"

text \<open>\<^verbatim>\<open>data.get(key, default)\<close>: only a dictionary has the method.\<close>

fun py_get :: "pyval \<Rightarrow> string \<Rightarrow> pyval \<Rightarrow> exn + pyval" where
  "py_get (PDict d) k dflt = Inr (case map_of d k of Some v \<Rightarrow> v | None \<Rightarrow> dflt)"
| "py_get v k dflt = Inl (AttributeError (type_name v) ''get'')"

text \<open>\<^verbatim>\<open>value.strip()\<close>: only a string has the method.\<close>

fun py_strip :: "pyval \<Rightarrow> exn + string" where
  "py_strip (PStr s) = Inr (strip s)"
| "py_strip v = Inl (AttributeError (type_name v) ''strip'')"

text \<open>
  \<^verbatim>\<open>jsonify\<close> serialises its argument, and raises \<^verbatim>\<open>TypeError\<close> on an object the JSON
  encoder does not know.
\<close>

fun serializable :: "pyval \<Rightarrow> bool" where
  "serializable (PList xs) = list_all serializable xs"
| "serializable (PDict kvs) = list_all (\<lambda>kv. serializable (snd kv)) kvs"
| "serializable (PResponse b s) = False"
| "serializable v = True"

definition jsonify :: "pyval \<Rightarrow> exn + pyval" where
  "jsonify v = (if serializable v then Inr v
                else Inl (TypeError ''Object of type Response is not JSON serializable''))"

text \<open>\<^verbatim>\<open>return jsonify(v), status\<close>.\<close>

definition respond :: "pyval \<Rightarrow> nat \<Rightarrow> exn + response" where
  "respond v status = (case jsonify v of Inl e \<Rightarrow> Inl e | Inr body \<Rightarrow> Inr (body, status))"

text \<open>The body of every \<^verbatim>\<open>except Exception as e\<close> clause: a failure envelope, status 500.\<close>

definition error_response :: "string \<Rightarrow> exn \<Rightarrow> response" where
  "error_response prefix e =
     (PDict [(''success'', PBool False), (''message'', PStr (prefix @ str_exn e))], 500)"

text \<open>Reading a field of a response body.\<close>

fun field :: "pyval \<Rightarrow> string \<Rightarrow> pyval option" where
  "field (PDict d) k = map_of d k"
| "field v k = None"

text \<open>Reading along a path of keys, as in \<^verbatim>\<open>body['results']['neighbors']\<close>.\<close>

fun lookup_path :: "pyval \<Rightarrow> string list \<Rightarrow> pyval option" where
  "lookup_path v [] = Some v"
| "lookup_path v (k # ks) = (case field v k of None \<Rightarrow> None | Some w \<Rightarrow> lookup_path w ks)"

section \<open>Floating-point arithmetic\<close>

text \<open>
  A Python \<^verbatim>\<open>float\<close> is an IEEE 754 binary64 number: 53 significant bits, and every
  operation returns the representable number nearest to the exact result, a tie going to
  the even significand. \<open>round_double\<close> is that rounding on rational numbers; it leaves
  the exponent unbounded, which is exact for results in the normal range (all the values
  computed here are). \<open>bit_length\<close> is \<^verbatim>\<open>int.bit_length\<close>; from the bit lengths of
  numerator and denominator the binary exponent \<open>p\<close> of the number is at most one off.
\<close>

function bit_length :: "int \<Rightarrow> int" where
  "bit_length n = (if n \<le> 0 then 0 else 1 + bit_length (n div 2))"
  by pat_completeness auto
termination
  by (relation "measure nat") auto

definition pow2 :: "int \<Rightarrow> rat" where
  "pow2 e = (if 0 \<le> e then 2 ^ nat e else 1 / 2 ^ nat (- e))"

definition round_half_even :: "rat \<Rightarrow> int" where
  "round_half_even x =
     (let f = \<lfloor>x\<rfloor>; r = x - of_int f
      in if r < 1 / 2 then f else if 1 / 2 < r then f + 1 else if even f then f else f + 1)"

definition round_double :: "rat \<Rightarrow> rat" where
  "round_double x =
     (if x = 0 then 0
      else (let y = \<bar>x\<bar>;
                k = bit_length (fst (quotient_of y)) - bit_length (snd (quotient_of y));
                p = (if pow2 k \<le> y then k else k - 1);
                e = p - 52
            in sgn x * (of_int (round_half_even (y / pow2 e)) * pow2 e)))"

text \<open>\<^verbatim>\<open>float(i)\<close>, and \<^verbatim>\<open>x - y\<close>, \<^verbatim>\<open>x / y\<close> and \<^verbatim>\<open>x * y\<close> on floats.\<close>

definition float_of_int :: "int \<Rightarrow> rat" where
  "float_of_int i = round_double (of_int i)"

definition fsub :: "rat \<Rightarrow> rat \<Rightarrow> rat" where
  "fsub x y = round_double (x - y)"

definition fdiv :: "rat \<Rightarrow> rat \<Rightarrow> rat" where
  "fdiv x y = round_double (x / y)"

definition fmul :: "rat \<Rightarrow> rat \<Rightarrow> rat" where
  "fmul x y = round_double (x * y)"

section \<open>The graph library\<close>

text \<open>
  NetworkX is not part of the repository; the model follows its documented data structure.
  A \<^verbatim>\<open>DiGraph\<close> keeps three insertion-ordered dictionaries: the nodes, the successors of
  each node and the predecessors of each node, the inner dictionaries mapping a neighbour
  to the attribute dictionary of the edge. Node attributes are never used by the
  application, so the node dictionary is its list of keys.

  The library keeps the three dictionaries consistent (\<open>wf_digraph\<close> below), and on such
  a graph a lookup of a node in the adjacency dictionaries always succeeds; \<open>adj_of\<close>
  reads a missing node as one without neighbours.
\<close>

type_synonym attrs = "(string \<times> string) list"
type_synonym adjdict = "(string \<times> attrs) list"

record digraph =
  node_d :: "string list"
  succ_d :: "(string \<times> adjdict) list"
  pred_d :: "(string \<times> adjdict) list"

definition DiGraph :: digraph where
  "DiGraph = \<lparr>node_d = [], succ_d = [], pred_d = []\<rparr>"

definition adj_of :: "(string \<times> adjdict) list \<Rightarrow> string \<Rightarrow> adjdict" where
  "adj_of d n = (case map_of d n of Some nbrs \<Rightarrow> nbrs | None \<Rightarrow> [])"

text \<open>\<^verbatim>\<open>add_edge\<close> first creates either endpoint that is not yet a node.\<close>

definition add_node_implicit :: "string \<Rightarrow> digraph \<Rightarrow> digraph" where
  "add_node_implicit u g =
     (if u \<in> set (map fst (succ_d g)) then g
      else g\<lparr>node_d := node_d g @ [u],
             succ_d := succ_d g @ [(u, [])],
             pred_d := pred_d g @ [(u, [])]\<rparr>)"

text \<open>
  \<^verbatim>\<open>G.add_edge(u, v, **attr)\<close>: the attribute dictionary of an existing edge is updated,
  a new edge starts from the empty one; the same dictionary is stored under both
  directions.
\<close>

definition datadict_of :: "digraph \<Rightarrow> string \<Rightarrow> string \<Rightarrow> attrs \<Rightarrow> attrs" where
  "datadict_of g u v attr =
     fold (\<lambda>kx. AList.update (fst kx) (snd kx)) attr
          (case map_of (adj_of (succ_d g) u) v of Some dd \<Rightarrow> dd | None \<Rightarrow> [])"

definition add_edge :: "string \<Rightarrow> string \<Rightarrow> attrs \<Rightarrow> digraph \<Rightarrow> digraph" where
  "add_edge u v attr g =
     (let g1 = add_node_implicit u g;
          g2 = add_node_implicit v g1;
          datadict = datadict_of g2 u v attr
      in g2\<lparr>succ_d := AList.update u (AList.update v datadict (adj_of (succ_d g2) u)) (succ_d g2),
             pred_d := AList.update v (AList.update u datadict (adj_of (pred_d g2) v)) (pred_d g2)\<rparr>)"

definition has_node :: "digraph \<Rightarrow> string \<Rightarrow> bool" where
  "has_node g n = (n \<in> set (node_d g))"

definition successors :: "digraph \<Rightarrow> string \<Rightarrow> string list" where
  "successors g n = map fst (adj_of (succ_d g) n)"

definition predecessors :: "digraph \<Rightarrow> string \<Rightarrow> string list" where
  "predecessors g n = map fst (adj_of (pred_d g) n)"

text \<open>\<^verbatim>\<open>G[u][v]\<close>: the attribute dictionary of the edge, \<^verbatim>\<open>KeyError\<close> when there is none.\<close>

definition edge_data :: "digraph \<Rightarrow> string \<Rightarrow> string \<Rightarrow> exn + attrs" where
  "edge_data g u v =
     (case map_of (succ_d g) u of
        None \<Rightarrow> Inl (KeyError u)
      | Some nbrs \<Rightarrow> (case map_of nbrs v of None \<Rightarrow> Inl (KeyError v) | Some dd \<Rightarrow> Inr dd))"

text \<open>\<^verbatim>\<open>dd.get('relationship', 'unknown')\<close>.\<close>

definition relationship_of :: "attrs \<Rightarrow> string" where
  "relationship_of dd = (case map_of dd ''relationship'' of Some r \<Rightarrow> r | None \<Rightarrow> ''unknown'')"

text \<open>\<^verbatim>\<open>G.edges(data=True)\<close>: node by node, each node's successors in insertion order.\<close>

definition edges_data :: "digraph \<Rightarrow> (string \<times> string \<times> attrs) list" where
  "edges_data g =
     concat (map (\<lambda>un. map (\<lambda>vd. (fst un, fst vd, snd vd)) (snd un)) (succ_d g))"

text \<open>The degree of a node of a directed graph: in-degree plus out-degree.\<close>

definition degree :: "digraph \<Rightarrow> string \<Rightarrow> nat" where
  "degree g n = length (adj_of (succ_d g) n) + length (adj_of (pred_d g) n)"

definition number_of_nodes :: "digraph \<Rightarrow> nat" where
  "number_of_nodes g = length (node_d g)"

text \<open>\<^verbatim>\<open>G.number_of_edges()\<close> is \<^verbatim>\<open>G.size()\<close>: half the sum of the degrees.\<close>

definition number_of_edges :: "digraph \<Rightarrow> nat" where
  "number_of_edges g = sum_list (map (degree g) (node_d g)) div 2"

section \<open>Sample data\<close>

definition sample_relationships :: "(string \<times> string \<times> string) list" where
  "sample_relationships =
     [(''John Doe'', ''enrolled_in'', ''Computer Science''),
      (''John Doe'', ''advised_by'', ''Dr. Smith''),
      (''Jane Smith'', ''enrolled_in'', ''Computer Science''),
      (''Jane Smith'', ''advised_by'', ''Dr. Smith''),
      (''Dr. Smith'', ''teaches'', ''Machine Learning''),
      (''Dr. Smith'', ''belongs_to'', ''Computer Science''),
      (''Dr. Johnson'', ''teaches'', ''Data Structures''),
      (''Dr. Johnson'', ''belongs_to'', ''Computer Science''),
      (''Machine Learning'', ''offered_by'', ''Computer Science''),
      (''Data Structures'', ''offered_by'', ''Computer Science''),
      (''Computer Science'', ''part_of'', ''Engineering Department''),
      (''Research Group A'', ''led_by'', ''Dr. Smith''),
      (''John Doe'', ''member_of'', ''Research Group A'')]"

text \<open>
  \<^verbatim>\<open>initialize_sample_data()\<close> adds every sample relationship to the global graph and
  returns how many there are.
\<close>

definition initialize_sample_data :: "digraph \<Rightarrow> nat \<times> digraph" where
  "initialize_sample_data g =
     (length sample_relationships,
      fold (\<lambda>r g'. case r of (entity1, relationship, entity2) \<Rightarrow>
              add_edge entity1 entity2 [(''relationship'', relationship)] g')
           sample_relationships g)"

text \<open>The graph at process start: the module creates it empty and seeds it.\<close>

definition knowledge_graph_init :: digraph where
  "knowledge_graph_init = snd (initialize_sample_data DiGraph)"

section \<open>Visualisation snapshot\<close>

text \<open>
  \<^verbatim>\<open>get_graph_data_dict()\<close>. Nothing in its \<^verbatim>\<open>try\<close> block can raise on a graph of
  strings, so the model is the success dictionary.
\<close>

definition node_entry :: "string \<Rightarrow> pyval" where
  "node_entry node =
     PDict [(''id'', PStr node), (''label'', PStr node),
            (''title'', PStr (''Entity: '' @ node))]"

definition edge_entry :: "string \<times> string \<times> attrs \<Rightarrow> pyval" where
  "edge_entry e =
     (case e of (source, target, data) \<Rightarrow>
        let relationship = relationship_of data
        in PDict [(''from'', PStr source), (''to'', PStr target),
                  (''label'', PStr relationship), (''arrows'', PStr ''to''),
                  (''title'', PStr (source @ '' --['' @ relationship @ '']--> '' @ target))])"

definition get_graph_data_dict :: "digraph \<Rightarrow> pyval" where
  "get_graph_data_dict g =
     PDict [(''success'', PBool True),
            (''nodes'', PList (map node_entry (node_d g))),
            (''edges'', PList (map edge_entry (edges_data g))),
            (''stats'', PDict [(''total_nodes'', PInt (int (number_of_nodes g))),
                               (''total_edges'', PInt (int (number_of_edges g)))])]"

section \<open>POST /api/add\_relationship\<close>

text \<open>\<^verbatim>\<open>data.get(key, '').strip()\<close>.\<close>

definition get_stripped :: "pyval \<Rightarrow> string \<Rightarrow> exn + string" where
  "get_stripped data k =
     (case py_get data k (PStr []) of Inl e \<Rightarrow> Inl e | Inr v \<Rightarrow> py_strip v)"

text \<open>
  The \<^verbatim>\<open>try\<close> block of the handler. An exception leaves the block with the graph as it
  is at that moment.
\<close>

definition add_relationship_try :: "digraph \<Rightarrow> pyval \<Rightarrow> (exn + response) \<times> digraph" where
  "add_relationship_try g data =
     (case get_stripped data ''entity1'' of Inl e \<Rightarrow> (Inl e, g) | Inr entity1 \<Rightarrow>
     (case get_stripped data ''relationship'' of Inl e \<Rightarrow> (Inl e, g) | Inr relationship \<Rightarrow>
     (case get_stripped data ''entity2'' of Inl e \<Rightarrow> (Inl e, g) | Inr entity2 \<Rightarrow>
        if entity1 = [] \<or> relationship = [] \<or> entity2 = [] then
          (respond (PDict [(''success'', PBool False),
                           (''message'', PStr ''All fields (Entity 1, Relationship, Entity 2) are required'')])
                   400, g)
        else
          (let g' = add_edge entity1 entity2 [(''relationship'', relationship)] g
           in (respond (PDict [(''success'', PBool True),
                               (''message'', PStr (''Relationship added: '' @ entity1 @ '' --['' @
                                                   relationship @ '']--> '' @ entity2)),
                               (''graph_data'', get_graph_data_dict g')])
                       200, g')))))"

definition add_relationship :: "digraph \<Rightarrow> pyval \<Rightarrow> response \<times> digraph" where
  "add_relationship g data =
     (case add_relationship_try g data of
        (Inr r, g') \<Rightarrow> (r, g')
      | (Inl e, g') \<Rightarrow> (error_response ''Error adding relationship: '' e, g'))"

section \<open>POST /api/upload\_csv\<close>

text \<open>
  The handler works on the data frame that \<^verbatim>\<open>pd.read_csv\<close> returns. Pandas is not
  part of the repository; what matters of it here is the kind of value a cell can be. The
  model covers the frames whose cells are strings or missing values (the float
  \<^verbatim>\<open>NaN\<close>, which the parser stores by default for an empty field); columns that the
  parser reads as numbers or booleans are outside it. \<^verbatim>\<open>str(cell)\<close> turns a cell into
  text, and the text of \<^verbatim>\<open>NaN\<close> is \<^verbatim>\<open>nan\<close>.
\<close>

datatype cell = CStr string | CNaN

text \<open>The decimal digits of a count, as an f-string prints it.\<close>

function show_nat :: "nat \<Rightarrow> string" where
  "show_nat n = (if n < 10 then [char_of (48 + n)]
                 else show_nat (n div 10) @ [char_of (48 + n mod 10)])"
  by pat_completeness auto
termination
  by (relation "measure (\<lambda>n. n)") auto

fun str_cell :: "cell \<Rightarrow> string" where
  "str_cell (CStr s) = s"
| "str_cell CNaN = ''nan''"

record dataframe =
  df_columns :: "string list"
  df_rows :: "cell list list"

text \<open>\<^verbatim>\<open>row[column]\<close>: the cell under the column label.\<close>

definition row_get :: "string list \<Rightarrow> cell list \<Rightarrow> string \<Rightarrow> exn + cell" where
  "row_get cols row c =
     (case map_of (zip cols row) c of Some x \<Rightarrow> Inr x | None \<Rightarrow> Inl (KeyError c))"

definition row_stripped :: "string list \<Rightarrow> cell list \<Rightarrow> string \<Rightarrow> exn + string" where
  "row_stripped cols row c =
     (case row_get cols row c of Inl e \<Rightarrow> Inl e | Inr x \<Rightarrow> Inr (strip (str_cell x)))"

text \<open>
  One turn of the loop over \<^verbatim>\<open>df.iterrows()\<close>. The loop state is the graph,
  \<^verbatim>\<open>added_count\<close> and \<^verbatim>\<open>errors\<close>.
\<close>

definition process_row ::
  "string list \<Rightarrow> nat \<times> cell list \<Rightarrow> digraph \<times> nat \<times> string list \<Rightarrow> digraph \<times> nat \<times> string list" where
  "process_row cols ir st =
     (case ir of (index, row) \<Rightarrow>
      case st of (g, added_count, errors) \<Rightarrow>
        (let failed = (\<lambda>e. (g, added_count,
                            errors @ [''Row '' @ show_nat (index + 1) @ '': '' @ str_exn e]))
         in (case row_stripped cols row ''Entity1'' of Inl e \<Rightarrow> failed e | Inr entity1 \<Rightarrow>
            (case row_stripped cols row ''Relationship'' of Inl e \<Rightarrow> failed e | Inr relationship \<Rightarrow>
            (case row_stripped cols row ''Entity2'' of Inl e \<Rightarrow> failed e | Inr entity2 \<Rightarrow>
               if entity1 \<noteq> [] \<and> relationship \<noteq> [] \<and> entity2 \<noteq> [] then
                 (add_edge entity1 entity2 [(''relationship'', relationship)] g,
                  added_count + 1, errors)
               else (g, added_count, errors))))))"

definition process_rows :: "dataframe \<Rightarrow> digraph \<Rightarrow> digraph \<times> nat \<times> string list" where
  "process_rows df g =
     fold (process_row (df_columns df)) (zip [0 ..< length (df_rows df)] (df_rows df)) (g, 0, [])"

text \<open>
  The upload request: no file part at all, or a file name together with what
  \<^verbatim>\<open>pd.read_csv\<close> makes of the content (a data frame, or the exception it raises).
\<close>

definition upload_csv_try ::
  "digraph \<Rightarrow> (string \<times> (exn + dataframe)) option \<Rightarrow> (exn + response) \<times> digraph" where
  "upload_csv_try g files =
     (case files of
        None \<Rightarrow>
          (respond (PDict [(''success'', PBool False), (''message'', PStr ''No file provided'')])
                   400, g)
      | Some (filename, parsed) \<Rightarrow>
          if filename = [] then
            (respond (PDict [(''success'', PBool False), (''message'', PStr ''No file selected'')])
                     400, g)
          else
            (case parsed of
               Inl e \<Rightarrow> (Inl e, g)
             | Inr df \<Rightarrow>
                 if \<not> list_all (\<lambda>col. col \<in> set (df_columns df))
                                [''Entity1'', ''Relationship'', ''Entity2''] then
                   (respond (PDict [(''success'', PBool False),
                                    (''message'', PStr ''CSV must contain columns: Entity1, Relationship, Entity2'')])
                            400, g)
                 else
                   (case process_rows df g of (g', added_count, errors) \<Rightarrow>
                      (respond (PDict [(''success'', PBool True),
                                       (''message'', PStr (''Successfully added '' @ show_nat added_count @
                                                           '' relationships from CSV'')),
                                       (''added_count'', PInt (int added_count)),
                                       (''errors'', if errors \<noteq> [] then PList (map PStr errors) else PNone),
                                       (''graph_data'', get_graph_data_dict g')])
                               200, g'))))"

definition upload_csv ::
  "digraph \<Rightarrow> (string \<times> (exn + dataframe)) option \<Rightarrow> response \<times> digraph" where
  "upload_csv g files =
     (case upload_csv_try g files of
        (Inr r, g') \<Rightarrow> (r, g')
      | (Inl e, g') \<Rightarrow> (error_response ''Error processing CSV: '' e, g'))"

section \<open>POST /api/query\<close>

text \<open>
  \<^verbatim>\<open>nx.shortest_path(G, source, target)\<close> on an unweighted graph returns a path with the
  fewest edges as the list of its nodes, and raises \<^verbatim>\<open>NetworkXNoPath\<close> when the target
  cannot be reached. The library is not part of the repository; it is modelled by a
  breadth-first search along the successor lists, \<open>None\<close> standing for the exception.
  The queue holds the paths found so far, each reversed. The library searches from both
  ends, so where several paths have the fewest edges it may return another of them than
  this search does; the properties below hold of any directed path from the source to the
  target and do not depend on the choice.
\<close>

definition all_targets :: "digraph \<Rightarrow> string list" where
  "all_targets g = concat (map (\<lambda>un. map fst (snd un)) (succ_d g))"

function bfs :: "digraph \<Rightarrow> string \<Rightarrow> string list list \<Rightarrow> string list \<Rightarrow> string list option" where
  "bfs g target [] seen = None"
| "bfs g target ([] # queue) seen = bfs g target queue seen"
| "bfs g target ((v # p) # queue) seen =
     (if v = target then Some (rev (v # p))
      else (let new = filter (\<lambda>w. w \<notin> set seen) (successors g v)
            in bfs g target (queue @ map (\<lambda>w. w # v # p) new) (seen @ new)))"
  by pat_completeness auto
termination
proof (relation "measures [\<lambda>(g, target, queue, seen). card (set (all_targets g) - set seen),
                           \<lambda>(g, target, queue, seen). length queue]", goal_cases)
  case 1
  show ?case by simp
next
  case (2 g target queue seen)
  show ?case by simp
next
  case (3 g target v p queue seen new)
  show ?case
  proof (cases "new = []")
    case True
    then show ?thesis by simp
  next
    case False
    then obtain w where w: "w \<in> set new" by (cases new) auto
    have sub: "set (successors g v) \<subseteq> set (all_targets g)"
    proof (cases "map_of (succ_d g) v")
      case None
      then show ?thesis by (simp add: successors_def adj_of_def)
    next
      case (Some nbrs)
      then have "(v, nbrs) \<in> set (succ_d g)" by (rule map_of_SomeD)
      then have "set (map fst nbrs) \<subseteq> set (all_targets g)"
        by (force simp: all_targets_def)
      with Some show ?thesis by (simp add: successors_def adj_of_def)
    qed
    from w 3 sub have "w \<in> set (all_targets g) - set seen" by auto
    moreover have "w \<notin> set (all_targets g) - set (seen @ new)" using w by simp
    ultimately have "set (all_targets g) - set (seen @ new) \<subset> set (all_targets g) - set seen"
      by auto
    then have "card (set (all_targets g) - set (seen @ new)) < card (set (all_targets g) - set seen)"
      by (intro psubset_card_mono) auto
    then show ?thesis by simp
  qed
qed

definition shortest_path :: "digraph \<Rightarrow> string \<Rightarrow> string \<Rightarrow> string list option" where
  "shortest_path g source target = bfs g target [[source]] [source]"

text \<open>
  The loop of the shortest-path query: every node other than the entity is tried, a
  target without a path is passed over (\<^verbatim>\<open>except nx.NetworkXNoPath: pass\<close>).
\<close>

definition shortest_paths_from :: "digraph \<Rightarrow> string \<Rightarrow> (string \<times> string list) list" where
  "shortest_paths_from g entity =
     List.map_filter
       (\<lambda>target. if target \<noteq> entity
                  then (case shortest_path g entity target of
                          Some path \<Rightarrow> Some (target, path)
                        | None \<Rightarrow> None)
                  else None)
       (node_d g)"

text \<open>A list comprehension whose element expression may raise.\<close>

fun traverse :: "('a \<Rightarrow> exn + 'b) \<Rightarrow> 'a list \<Rightarrow> exn + 'b list" where
  "traverse f [] = Inr []"
| "traverse f (x # xs) =
     (case f x of Inl e \<Rightarrow> Inl e
      | Inr y \<Rightarrow> (case traverse f xs of Inl e \<Rightarrow> Inl e | Inr ys \<Rightarrow> Inr (y # ys)))"

definition neighbor_entry :: "string \<Rightarrow> attrs \<Rightarrow> pyval" where
  "neighbor_entry n dd =
     PDict [(''entity'', PStr n), (''relationship'', PStr (relationship_of dd))]"

definition neighbors_result :: "digraph \<Rightarrow> string \<Rightarrow> exn + pyval" where
  "neighbors_result g entity =
     (case traverse (\<lambda>pred. case edge_data g pred entity of
                               Inl e \<Rightarrow> Inl e | Inr dd \<Rightarrow> Inr (neighbor_entry pred dd))
                    (predecessors g entity) of
        Inl e \<Rightarrow> Inl e
      | Inr incoming \<Rightarrow>
          (case traverse (\<lambda>succ. case edge_data g entity succ of
                                   Inl e \<Rightarrow> Inl e | Inr dd \<Rightarrow> Inr (neighbor_entry succ dd))
                         (successors g entity) of
             Inl e \<Rightarrow> Inl e
           | Inr outgoing \<Rightarrow>
               Inr (PDict [(''incoming'', PList incoming), (''outgoing'', PList outgoing)])))"

text \<open>
  \<^verbatim>\<open>nx.degree_centrality(G)\<close>, as the library has it: every value is the integer 1 on
  a graph of at most one node; otherwise \<^verbatim>\<open>s = 1.0 / (len(G) - 1.0)\<close> and the value of a
  node is \<^verbatim>\<open>d * s\<close>, in floating point, where the degree \<^verbatim>\<open>d\<close> of a node of a directed
  graph counts its incoming and its outgoing edges.
\<close>

definition degree_centrality :: "digraph \<Rightarrow> (string \<times> pyval) list" where
  "degree_centrality g =
     (if length (node_d g) \<le> 1 then map (\<lambda>n. (n, PInt 1)) (node_d g)
      else (let s = fdiv 1 (fsub (float_of_int (int (length (node_d g)))) 1)
            in map (\<lambda>n. (n, PFloat (fmul (float_of_int (int (degree g n))) s))) (node_d g)))"

text \<open>\<^verbatim>\<open>d.get(entity, 0)\<close> on a dictionary of numbers.\<close>

definition get_or_zero :: "(string \<times> pyval) list \<Rightarrow> string \<Rightarrow> pyval" where
  "get_or_zero d k = (case map_of d k of Some v \<Rightarrow> v | None \<Rightarrow> PInt 0)"

text \<open>
  The results dictionary of a query. \<^verbatim>\<open>nx.betweenness_centrality\<close> is a parameter
  \<open>bc\<close> of the model: it returns a dictionary of floats and does not raise, and no
  property below depends on its values.
\<close>

definition query_results ::
  "(digraph \<Rightarrow> (string \<times> rat) list) \<Rightarrow> digraph \<Rightarrow> string \<Rightarrow> pyval \<Rightarrow> exn + (string \<times> pyval) list" where
  "query_results bc g entity query_type =
     (case (if query_type = PStr ''neighbors'' \<or> query_type = PStr ''all''
            then (case neighbors_result g entity of
                    Inl e \<Rightarrow> Inl e | Inr n \<Rightarrow> Inr [(''neighbors'', n)])
            else Inr []) of
        Inl e \<Rightarrow> Inl e
      | Inr r1 \<Rightarrow>
          (let r2 = (if (query_type = PStr ''shortest_path'' \<or> query_type = PStr ''all'')
                        \<and> length (node_d g) > 1
                     then [(''shortest_paths'',
                            PDict (map (\<lambda>tp. (fst tp, PList (map PStr (snd tp))))
                                       (shortest_paths_from g entity)))]
                     else []);
               r3 = (if query_type = PStr ''centrality'' \<or> query_type = PStr ''all''
                     then [(''centrality'',
                            PDict [(''degree'', get_or_zero (degree_centrality g) entity),
                                   (''betweenness'',
                                    get_or_zero (map (\<lambda>nr. (fst nr, PFloat (snd nr))) (bc g)) entity)])]
                     else [])
           in Inr (r1 @ r2 @ r3)))"

definition query_graph_try ::
  "(digraph \<Rightarrow> (string \<times> rat) list) \<Rightarrow> digraph \<Rightarrow> pyval \<Rightarrow> exn + response" where
  "query_graph_try bc g data =
     (case py_get data ''query_type'' (PStr []) of Inl e \<Rightarrow> Inl e | Inr query_type \<Rightarrow>
     (case get_stripped data ''entity'' of Inl e \<Rightarrow> Inl e | Inr entity \<Rightarrow>
        if entity = [] then
          respond (PDict [(''success'', PBool False),
                          (''message'', PStr ''Entity name is required for query'')]) 400
        else if \<not> has_node g entity then
          respond (PDict [(''success'', PBool False),
                          (''message'', PStr (''Entity '' @ [CHR 0x22] @ entity @ [CHR 0x22] @
                                              '' not found in the graph''))]) 404
        else
          (case query_results bc g entity query_type of
             Inl e \<Rightarrow> Inl e
           | Inr results \<Rightarrow>
               respond (PDict [(''success'', PBool True), (''entity'', PStr entity),
                               (''query_type'', query_type), (''results'', PDict results)]) 200)))"

definition query_graph ::
  "(digraph \<Rightarrow> (string \<times> rat) list) \<Rightarrow> digraph \<Rightarrow> pyval \<Rightarrow> response" where
  "query_graph bc g data =
     (case query_graph_try bc g data of
        Inr r \<Rightarrow> r
      | Inl e \<Rightarrow> error_response ''Error querying graph: '' e)"

section \<open>GET /api/graph\_data and POST /api/clear\_graph\<close>

text \<open>
  \<^verbatim>\<open>get_graph_data()\<close> is the view function of the route: what it returns is a Flask
  \<^verbatim>\<open>Response\<close> object (or the pair of one and the status 500), not a dictionary.
\<close>

definition get_graph_data :: "digraph \<Rightarrow> exn + pyval" where
  "get_graph_data g =
     (let data = get_graph_data_dict g
      in if field data ''success'' = Some (PBool True) then
           (case jsonify data of Inl e \<Rightarrow> Inl e | Inr body \<Rightarrow> Inr (PResponse body 200))
         else
           (case jsonify data of Inl e \<Rightarrow> Inl e
            | Inr body \<Rightarrow> Inr (PList [PResponse body 200, PInt 500])))"

text \<open>
  \<^verbatim>\<open>clear_graph()\<close>: the counts are taken, the global graph is replaced by a new empty
  one, the sample data is loaded into it, and the answer is built from the value of
  \<^verbatim>\<open>get_graph_data()\<close>.
\<close>

definition clear_graph_try :: "digraph \<Rightarrow> (exn + response) \<times> digraph" where
  "clear_graph_try g =
     (let node_count = number_of_nodes g;
          edge_count = number_of_edges g;
          g' = snd (initialize_sample_data DiGraph)
      in case get_graph_data g' of
           Inl e \<Rightarrow> (Inl e, g')
         | Inr graph_data \<Rightarrow>
             (respond (PDict [(''success'', PBool True),
                              (''message'', PStr (''Graph cleared and reset. Removed '' @
                                                  show_nat node_count @ '' nodes and '' @
                                                  show_nat edge_count @ '' edges.'')),
                              (''graph_data'', graph_data)])
                      200, g'))"

definition clear_graph :: "digraph \<Rightarrow> response \<times> digraph" where
  "clear_graph g =
     (case clear_graph_try g of
        (Inr r, g') \<Rightarrow> (r, g')
      | (Inl e, g') \<Rightarrow> (error_response ''Error clearing graph: '' e, g'))"

section \<open>Well-formed graphs and paths\<close>

text \<open>
  The class invariant of \<^verbatim>\<open>DiGraph\<close>: the three dictionaries have the same keys, and the
  predecessor dictionary is the mirror image of the successor dictionary.
\<close>

definition wf_digraph :: "digraph \<Rightarrow> bool" where
  "wf_digraph g =
     (distinct (node_d g) \<and> map fst (succ_d g) = node_d g \<and> map fst (pred_d g) = node_d g \<and>
      list_all (\<lambda>un. distinct (map fst (snd un)) \<and>
                      list_all (\<lambda>vd. map_of (adj_of (pred_d g) (fst vd)) (fst un) = Some (snd vd))
                               (snd un))
               (succ_d g) \<and>
      list_all (\<lambda>vn. distinct (map fst (snd vn)) \<and>
                      list_all (\<lambda>ud. map_of (adj_of (succ_d g) (fst ud)) (fst vn) = Some (snd ud))
                               (snd vn))
               (pred_d g))"

text \<open>A directed path: a non-empty list of nodes, each the successor of the one before.\<close>

fun is_path :: "digraph \<Rightarrow> string list \<Rightarrow> bool" where
  "is_path g [] = False"
| "is_path g [v] = True"
| "is_path g (u # v # p) = (v \<in> set (successors g u) \<and> is_path g (v # p))"

text \<open>
  The degree value as the specification words it: the number of distinct other entities
  directly connected to the entity, in either direction, over the number of other
  entities.
\<close>

definition connected_others :: "digraph \<Rightarrow> string \<Rightarrow> string list" where
  "connected_others g entity =
     remdups (filter (\<lambda>n. n \<noteq> entity) (predecessors g entity @ successors g entity))"

definition connected_fraction :: "digraph \<Rightarrow> string \<Rightarrow> rat" where
  "connected_fraction g entity =
     of_nat (length (connected_others g entity)) / of_nat (length (node_d g) - 1)"

text \<open>
  The graphs the running service can hold: the seeded graph, and whatever the three
  mutating handlers make of a graph it can hold.
\<close>

inductive reachable :: "digraph \<Rightarrow> bool" where
  start: "reachable knowledge_graph_init"
| added: "reachable g \<Longrightarrow> reachable (snd (add_relationship g data))"
| uploaded: "reachable g \<Longrightarrow> reachable (snd (upload_csv g files))"
| cleared: "reachable g \<Longrightarrow> reachable (snd (clear_graph g))"

text \<open>
  An instance of the parameter \<open>bc\<close> for the closed examples below: the dictionary that
  gives every node the value 0.
\<close>

definition betweenness_zero :: "digraph \<Rightarrow> (string \<times> rat) list" where
  "betweenness_zero g = map (\<lambda>n. (n, 0)) (node_d g)"

section \<open>Association lists\<close>

lemma update_mem: "(k, v) \<in> set (AList.update k v al)"
  by (induction al) auto

lemma length_update:
  "length (AList.update k v al) = (if k \<in> fst ` set al then length al else Suc (length al))"
  by (induction al) auto

lemma map_of_distinct_mem:
  "distinct (map fst al) \<Longrightarrow> (k, v) \<in> set al \<longleftrightarrow> map_of al k = Some v"
  by (auto dest: map_of_SomeD)

lemma adj_of_mem: "map_of d n = Some nbrs \<Longrightarrow> adj_of d n = nbrs"
  by (simp add: adj_of_def)

lemma adj_of_absent: "n \<notin> fst ` set d \<Longrightarrow> adj_of d n = []"
  by (simp add: adj_of_def map_of_eq_None_iff[THEN iffD2])

lemma adj_of_nonempty_key: "adj_of d n \<noteq> [] \<Longrightarrow> n \<in> fst ` set d"
  using adj_of_absent by blast

lemma adj_of_append_empty: "adj_of (d @ [(u, [])]) n = adj_of d n"
  by (simp add: adj_of_def map_add_def split: option.splits)

lemma adj_of_update:
  "adj_of (AList.update u x d) n = (if n = u then x else adj_of d n)"
  by (simp add: adj_of_def update_conv')

lemma map_of_adj_key:
  "map_of (adj_of d n) m = Some dd \<Longrightarrow> \<exists>nbrs. map_of d n = Some nbrs \<and> map_of nbrs m = Some dd"
  by (cases "map_of d n") (simp_all add: adj_of_def)

section \<open>Well-formed graphs\<close>

lemma wf_digraph_iff:
  "wf_digraph g \<longleftrightarrow>
     distinct (node_d g) \<and> map fst (succ_d g) = node_d g \<and> map fst (pred_d g) = node_d g \<and>
     (\<forall>u. distinct (map fst (adj_of (succ_d g) u))) \<and>
     (\<forall>v. distinct (map fst (adj_of (pred_d g) v))) \<and>
     (\<forall>u v. map_of (adj_of (succ_d g) u) v = map_of (adj_of (pred_d g) v) u)"
  (is "?L \<longleftrightarrow> ?R")
proof
  assume L: ?L
  then have dn: "distinct (node_d g)" and ks: "map fst (succ_d g) = node_d g"
    and kp: "map fst (pred_d g) = node_d g"
    and S: "\<And>u nbrs. (u, nbrs) \<in> set (succ_d g) \<Longrightarrow> distinct (map fst nbrs) \<and>
              (\<forall>(v, dd) \<in> set nbrs. map_of (adj_of (pred_d g) v) u = Some dd)"
    and P: "\<And>v nbrs. (v, nbrs) \<in> set (pred_d g) \<Longrightarrow> distinct (map fst nbrs) \<and>
              (\<forall>(u, dd) \<in> set nbrs. map_of (adj_of (succ_d g) u) v = Some dd)"
    by (fastforce simp: wf_digraph_def list_all_iff)+
  have ds: "distinct (map fst (adj_of (succ_d g) u))" for u
    by (cases "map_of (succ_d g) u") (auto simp: adj_of_def dest!: map_of_SomeD S)
  have dp: "distinct (map fst (adj_of (pred_d g) v))" for v
    by (cases "map_of (pred_d g) v") (auto simp: adj_of_def dest!: map_of_SomeD P)
  have sp: "map_of (adj_of (pred_d g) v) u = Some dd" if "map_of (adj_of (succ_d g) u) v = Some dd" for u v dd
  proof -
    from that obtain nbrs where "map_of (succ_d g) u = Some nbrs" "map_of nbrs v = Some dd"
      by (blast dest: map_of_adj_key)
    then have "(u, nbrs) \<in> set (succ_d g)" "(v, dd) \<in> set nbrs" by (auto dest: map_of_SomeD)
    with S show ?thesis by blast
  qed
  have ps: "map_of (adj_of (succ_d g) u) v = Some dd" if "map_of (adj_of (pred_d g) v) u = Some dd" for u v dd
  proof -
    from that obtain nbrs where "map_of (pred_d g) v = Some nbrs" "map_of nbrs u = Some dd"
      by (blast dest: map_of_adj_key)
    then have "(v, nbrs) \<in> set (pred_d g)" "(u, dd) \<in> set nbrs" by (auto dest: map_of_SomeD)
    with P show ?thesis by blast
  qed
  have "map_of (adj_of (succ_d g) u) v = map_of (adj_of (pred_d g) v) u" for u v
  proof (cases "map_of (adj_of (succ_d g) u) v")
    case None
    then show ?thesis using ps[of v u] by (cases "map_of (adj_of (pred_d g) v) u") auto
  next
    case (Some dd)
    then show ?thesis using sp by simp
  qed
  with dn ks kp ds dp show ?R by blast
next
  assume R: ?R
  then have dn: "distinct (node_d g)" and ks: "map fst (succ_d g) = node_d g"
    and kp: "map fst (pred_d g) = node_d g"
    and ds: "\<And>u. distinct (map fst (adj_of (succ_d g) u))"
    and dp: "\<And>v. distinct (map fst (adj_of (pred_d g) v))"
    and eq: "\<And>u v. map_of (adj_of (succ_d g) u) v = map_of (adj_of (pred_d g) v) u"
    by blast+
  have S: "distinct (map fst nbrs) \<and> (\<forall>(v, dd) \<in> set nbrs. map_of (adj_of (pred_d g) v) u = Some dd)"
    if "(u, nbrs) \<in> set (succ_d g)" for u nbrs
  proof -
    from that dn ks have "map_of (succ_d g) u = Some nbrs" by simp
    then have a: "adj_of (succ_d g) u = nbrs" by (rule adj_of_mem)
    with ds[of u] have d: "distinct (map fst nbrs)" by simp
    then have "map_of nbrs v = Some dd" if "(v, dd) \<in> set nbrs" for v dd using that by simp
    with a eq[of u] d show ?thesis by auto
  qed
  have P: "distinct (map fst nbrs) \<and> (\<forall>(u, dd) \<in> set nbrs. map_of (adj_of (succ_d g) u) v = Some dd)"
    if "(v, nbrs) \<in> set (pred_d g)" for v nbrs
  proof -
    from that dn kp have "map_of (pred_d g) v = Some nbrs" by simp
    then have a: "adj_of (pred_d g) v = nbrs" by (rule adj_of_mem)
    with dp[of v] have d: "distinct (map fst nbrs)" by simp
    then have "map_of nbrs u = Some dd" if "(u, dd) \<in> set nbrs" for u dd using that by simp
    with a eq[of _ v] d show ?thesis by auto
  qed
  from dn ks kp S P show ?L
    by (fastforce simp: wf_digraph_def list_all_iff)
qed

lemma wf_DiGraph: "wf_digraph DiGraph"
  by (simp add: wf_digraph_def DiGraph_def)

lemma wf_add_node_implicit: "wf_digraph g \<Longrightarrow> wf_digraph (add_node_implicit u g)"
  by (auto simp: wf_digraph_iff add_node_implicit_def adj_of_append_empty)

lemma add_node_implicit_key: "wf_digraph g \<Longrightarrow> u \<in> set (node_d (add_node_implicit u g))"
  by (auto simp: wf_digraph_iff add_node_implicit_def)

lemma add_node_implicit_mono: "set (node_d g) \<subseteq> set (node_d (add_node_implicit u g))"
  by (auto simp: add_node_implicit_def)

section \<open>Adding an edge\<close>

lemma adj_of_succ_add_node_implicit [simp]:
  "adj_of (succ_d (add_node_implicit u g)) n = adj_of (succ_d g) n"
  by (simp add: add_node_implicit_def adj_of_append_empty)

lemma adj_of_pred_add_node_implicit [simp]:
  "adj_of (pred_d (add_node_implicit u g)) n = adj_of (pred_d g) n"
  by (simp add: add_node_implicit_def adj_of_append_empty)

lemma datadict_of_add_node_implicit [simp]:
  "datadict_of (add_node_implicit w g) u v attr = datadict_of g u v attr"
  by (simp add: datadict_of_def)

lemma adj_of_succ_add_edge:
  "adj_of (succ_d (add_edge u v attr g)) n =
     (if n = u then AList.update v (datadict_of g u v attr) (adj_of (succ_d g) u)
      else adj_of (succ_d g) n)"
  by (simp add: add_edge_def Let_def adj_of_update)

lemma adj_of_pred_add_edge:
  "adj_of (pred_d (add_edge u v attr g)) n =
     (if n = v then AList.update u (datadict_of g u v attr) (adj_of (pred_d g) v)
      else adj_of (pred_d g) n)"
  by (simp add: add_edge_def Let_def adj_of_update)

lemma node_d_add_edge:
  "node_d (add_edge u v attr g) = node_d (add_node_implicit v (add_node_implicit u g))"
  by (simp add: add_edge_def Let_def)

lemma wf_add_edge:
  assumes "wf_digraph g"
  shows "wf_digraph (add_edge u v attr g)"
proof -
  let ?g2 = "add_node_implicit v (add_node_implicit u g)"
  have wf2: "wf_digraph ?g2" using assms by (simp add: wf_add_node_implicit)
  have u2: "u \<in> set (node_d ?g2)"
    using add_node_implicit_key[OF assms, of u] add_node_implicit_mono by blast
  have v2: "v \<in> set (node_d ?g2)"
    using add_node_implicit_key[OF wf_add_node_implicit[OF assms]] by blast
  from wf2 have ks: "map fst (succ_d ?g2) = node_d ?g2" and kp: "map fst (pred_d ?g2) = node_d ?g2"
    and dn: "distinct (node_d ?g2)"
    by (simp_all add: wf_digraph_iff)
  have ks': "map fst (succ_d (add_edge u v attr g)) = node_d ?g2"
    using u2 ks by (simp add: add_edge_def Let_def update_keys)
  have kp': "map fst (pred_d (add_edge u v attr g)) = node_d ?g2"
    using v2 kp by (simp add: add_edge_def Let_def update_keys)
  from assms have ds: "\<And>n. distinct (map fst (adj_of (succ_d g) n))"
    and dp: "\<And>n. distinct (map fst (adj_of (pred_d g) n))"
    and eq: "\<And>n m. map_of (adj_of (succ_d g) n) m = map_of (adj_of (pred_d g) m) n"
    by (simp_all add: wf_digraph_iff)
  show ?thesis
    unfolding wf_digraph_iff
    using dn ks' kp' ds dp eq
    by (simp add: node_d_add_edge adj_of_succ_add_edge adj_of_pred_add_edge distinct_update
        update_conv')
qed

lemma wf_fold_add_edge:
  "wf_digraph g \<Longrightarrow> wf_digraph (fold (\<lambda>r g'. add_edge (f r) (h r) (a r) g') rs g)"
  by (induction rs arbitrary: g) (simp_all add: wf_add_edge)

lemma has_node_add_edge:
  assumes "wf_digraph g"
  shows "has_node (add_edge u v attr g) u" "has_node (add_edge u v attr g) v"
proof -
  show "has_node (add_edge u v attr g) u"
    using add_node_implicit_key[OF assms, of u] add_node_implicit_mono
    by (auto simp: has_node_def node_d_add_edge)
  show "has_node (add_edge u v attr g) v"
    using add_node_implicit_key[OF wf_add_node_implicit[OF assms]]
    by (auto simp: has_node_def node_d_add_edge)
qed

lemma datadict_relationship [simp]:
  "relationship_of (datadict_of g u v [(''relationship'', r)]) = r"
  by (simp add: datadict_of_def relationship_of_def update_conv')

lemma datadict_of_single:
  "datadict_of g u v [(k, x)] =
     AList.update k x (case map_of (adj_of (succ_d g) u) v of Some dd \<Rightarrow> dd | None \<Rightarrow> [])"
  by (simp add: datadict_of_def)

lemma serializable_get_graph_data_dict: "serializable (get_graph_data_dict g)"
  by (simp add: get_graph_data_dict_def list_all_iff node_entry_def edge_entry_def Let_def
      split: prod.splits)

section \<open>Request fields\<close>

lemma get_stripped_PDict:
  "get_stripped (PDict d) k =
     (case map_of d k of None \<Rightarrow> Inr [] | Some v \<Rightarrow> py_strip v)"
  by (simp add: get_stripped_def strip_def split: option.splits)

lemma strip_Nil [simp]: "strip [] = []"
  by (simp add: strip_def)

section \<open>Adding a relationship\<close>

lemma add_relationship_accepts:
  assumes "get_stripped data ''entity1'' = Inr entity1"
    and "get_stripped data ''relationship'' = Inr relationship"
    and "get_stripped data ''entity2'' = Inr entity2"
    and "entity1 \<noteq> []" "relationship \<noteq> []" "entity2 \<noteq> []"
  shows "add_relationship g data =
     ((PDict [(''success'', PBool True),
              (''message'', PStr (''Relationship added: '' @ entity1 @ '' --['' @
                                  relationship @ '']--> '' @ entity2)),
              (''graph_data'', get_graph_data_dict
                 (add_edge entity1 entity2 [(''relationship'', relationship)] g))],
       200),
      add_edge entity1 entity2 [(''relationship'', relationship)] g)"
  using assms
  by (simp add: add_relationship_def add_relationship_try_def respond_def jsonify_def Let_def
      serializable_get_graph_data_dict)

section \<open>Edges of the snapshot\<close>

lemma edges_data_mem:
  "(u, v, dd) \<in> set (edges_data g) \<longleftrightarrow> (\<exists>nbrs. (u, nbrs) \<in> set (succ_d g) \<and> (v, dd) \<in> set nbrs)"
  by (force simp: edges_data_def)

lemma succ_entry_add_edge:
  assumes "wf_digraph g"
  shows "(u, adj_of (succ_d (add_edge u v attr g)) u) \<in> set (succ_d (add_edge u v attr g))"
proof -
  have "wf_digraph (add_edge u v attr g)" using assms by (rule wf_add_edge)
  moreover have "u \<in> set (node_d (add_edge u v attr g))"
    using has_node_add_edge(1)[OF assms] by (simp add: has_node_def)
  ultimately have "u \<in> fst ` set (succ_d (add_edge u v attr g))"
    by (metis wf_digraph_iff set_map)
  then obtain nbrs where "map_of (succ_d (add_edge u v attr g)) u = Some nbrs"
    by (metis map_of_eq_None_iff not_Some_eq)
  then show ?thesis by (metis adj_of_mem map_of_SomeD)
qed

lemma edge_in_edges_data_add_edge:
  assumes "wf_digraph g"
  shows "(u, v, datadict_of g u v attr) \<in> set (edges_data (add_edge u v attr g))"
  unfolding edges_data_mem
  using succ_entry_add_edge[OF assms, of u v attr]
  by (auto simp: adj_of_succ_add_edge update_mem intro!: exI[of _ "adj_of (succ_d (add_edge u v attr g)) u"])

section \<open>Neighbours\<close>

lemma traverse_all:
  "(\<And>x. x \<in> set xs \<Longrightarrow> f x = Inr (h x)) \<Longrightarrow> traverse f xs = Inr (map h xs)"
  by (induction xs) simp_all

lemma traverse_map: "traverse f (map k xs) = traverse (f \<circ> k) xs"
  by (induction xs) (simp_all split: sum.splits)

lemma edge_data_succ:
  "map_of (adj_of (succ_d g) u) v = Some dd \<Longrightarrow> edge_data g u v = Inr dd"
  by (auto simp: edge_data_def dest!: map_of_adj_key)

lemma neighbors_result_wf:
  assumes "wf_digraph g"
  shows "neighbors_result g entity =
     Inr (PDict [(''incoming'', PList (map (\<lambda>pd. neighbor_entry (fst pd) (snd pd)) (adj_of (pred_d g) entity))),
                 (''outgoing'', PList (map (\<lambda>sd. neighbor_entry (fst sd) (snd sd)) (adj_of (succ_d g) entity)))])"
proof -
  from assms have ds: "\<And>n. distinct (map fst (adj_of (succ_d g) n))"
    and dp: "\<And>n. distinct (map fst (adj_of (pred_d g) n))"
    and eq: "\<And>n m. map_of (adj_of (succ_d g) n) m = map_of (adj_of (pred_d g) m) n"
    by (simp_all add: wf_digraph_iff)
  have inc: "traverse (\<lambda>pred. case edge_data g pred entity of
                               Inl e \<Rightarrow> Inl e | Inr dd \<Rightarrow> Inr (neighbor_entry pred dd))
               (map fst (adj_of (pred_d g) entity))
             = Inr (map (\<lambda>pd. neighbor_entry (fst pd) (snd pd)) (adj_of (pred_d g) entity))"
  proof -
    have "edge_data g (fst pd) entity = Inr (snd pd)" if "pd \<in> set (adj_of (pred_d g) entity)" for pd
    proof -
      have "(fst pd, snd pd) \<in> set (adj_of (pred_d g) entity)" using that by simp
      with dp[of entity] have "map_of (adj_of (pred_d g) entity) (fst pd) = Some (snd pd)"
        by (simp only: map_of_distinct_mem)
      then show ?thesis using eq edge_data_succ by simp
    qed
    then have "traverse ((\<lambda>pred. case edge_data g pred entity of
                               Inl e \<Rightarrow> Inl e | Inr dd \<Rightarrow> Inr (neighbor_entry pred dd)) \<circ> fst)
               (adj_of (pred_d g) entity)
             = Inr (map (\<lambda>pd. neighbor_entry (fst pd) (snd pd)) (adj_of (pred_d g) entity))"
      by (intro traverse_all) simp
    then show ?thesis by (simp add: traverse_map)
  qed
  have out: "traverse (\<lambda>succ. case edge_data g entity succ of
                               Inl e \<Rightarrow> Inl e | Inr dd \<Rightarrow> Inr (neighbor_entry succ dd))
               (map fst (adj_of (succ_d g) entity))
             = Inr (map (\<lambda>sd. neighbor_entry (fst sd) (snd sd)) (adj_of (succ_d g) entity))"
  proof -
    have "edge_data g entity (fst sd) = Inr (snd sd)" if "sd \<in> set (adj_of (succ_d g) entity)" for sd
    proof -
      have "(fst sd, snd sd) \<in> set (adj_of (succ_d g) entity)" using that by simp
      with ds[of entity] have "map_of (adj_of (succ_d g) entity) (fst sd) = Some (snd sd)"
        by (simp only: map_of_distinct_mem)
      then show ?thesis by (rule edge_data_succ)
    qed
    then have "traverse ((\<lambda>succ. case edge_data g entity succ of
                               Inl e \<Rightarrow> Inl e | Inr dd \<Rightarrow> Inr (neighbor_entry succ dd)) \<circ> fst)
               (adj_of (succ_d g) entity)
             = Inr (map (\<lambda>sd. neighbor_entry (fst sd) (snd sd)) (adj_of (succ_d g) entity))"
      by (intro traverse_all) simp
    then show ?thesis by (simp add: traverse_map)
  qed
  show ?thesis
    by (simp add: neighbors_result_def predecessors_def successors_def inc out)
qed

section \<open>Rows of an uploaded frame\<close>

lemma process_row_blank_skipped:
  assumes "row_stripped cols row ''Entity1'' = Inr entity1"
    and "row_stripped cols row ''Relationship'' = Inr relationship"
    and "row_stripped cols row ''Entity2'' = Inr entity2"
    and "entity1 = [] \<or> relationship = [] \<or> entity2 = []"
  shows "process_row cols (index, row) (g, added_count, errors) = (g, added_count, errors)"
  using assms by (auto simp: process_row_def)

lemma process_row_applied:
  assumes "row_stripped cols row ''Entity1'' = Inr entity1"
    and "row_stripped cols row ''Relationship'' = Inr relationship"
    and "row_stripped cols row ''Entity2'' = Inr entity2"
    and "entity1 \<noteq> []" "relationship \<noteq> []" "entity2 \<noteq> []"
  shows "process_row cols (index, row) (g, added_count, errors) =
           (add_edge entity1 entity2 [(''relationship'', relationship)] g, added_count + 1, errors)"
  using assms by (simp add: process_row_def)

lemma row_stripped_NaN:
  "map_of (zip cols row) c = Some CNaN \<Longrightarrow> row_stripped cols row c = Inr ''nan''"
  by (simp add: row_stripped_def row_get_def strip_def is_space_def)

section \<open>Queries\<close>

lemma get_stripped_is_dict: "get_stripped data k = Inr e \<Longrightarrow> \<exists>d. data = PDict d"
  by (cases data) (simp_all add: get_stripped_def)

lemma query_graph_blank:
  assumes "get_stripped data ''entity'' = Inr []"
  shows "query_graph bc g data =
     (PDict [(''success'', PBool False), (''message'', PStr ''Entity name is required for query'')],
      400)"
proof -
  from assms obtain d where "data = PDict d" by (blast dest: get_stripped_is_dict)
  with assms show ?thesis
    by (simp add: query_graph_def query_graph_try_def respond_def jsonify_def)
qed

lemma query_graph_unknown:
  assumes "get_stripped data ''entity'' = Inr entity" and "entity \<noteq> []"
    and "\<not> has_node g entity"
  shows "query_graph bc g data =
     (PDict [(''success'', PBool False),
             (''message'', PStr (''Entity '' @ [CHR 0x22] @ entity @ [CHR 0x22] @
                                 '' not found in the graph''))],
      404)"
proof -
  from assms obtain d where "data = PDict d" by (blast dest: get_stripped_is_dict)
  with assms show ?thesis
    by (simp add: query_graph_def query_graph_try_def respond_def jsonify_def)
qed

lemma query_graph_found:
  assumes "get_stripped data ''entity'' = Inr entity" and "entity \<noteq> []"
    and "has_node g entity"
    and "py_get data ''query_type'' (PStr []) = Inr query_type"
    and "query_results bc g entity query_type = Inr results"
    and "serializable query_type"
    and "list_all (\<lambda>kv. serializable (snd kv)) results"
  shows "query_graph bc g data =
     (PDict [(''success'', PBool True), (''entity'', PStr entity),
             (''query_type'', query_type), (''results'', PDict results)],
      200)"
  using assms
  by (simp add: query_graph_def query_graph_try_def respond_def jsonify_def)

lemma query_results_other:
  assumes "query_type \<noteq> PStr ''neighbors''" "query_type \<noteq> PStr ''shortest_path''"
    "query_type \<noteq> PStr ''centrality''" "query_type \<noteq> PStr ''all''"
  shows "query_results bc g entity query_type = Inr []"
  using assms by (simp add: query_results_def)

lemma serializable_neighbor_entries:
  "list_all serializable (map (\<lambda>pd. neighbor_entry (fst pd) (snd pd)) xs)"
  by (simp add: list_all_iff neighbor_entry_def)

lemma serializable_paths:
  "list_all (\<lambda>kv. serializable (snd kv)) (map (\<lambda>tp. (fst tp, PList (map PStr (snd tp)))) ps)"
  by (simp add: list_all_iff)

lemma serializable_get_or_zero_degree: "serializable (get_or_zero (degree_centrality g) entity)"
proof -
  have "map_of (degree_centrality g) entity = Some v \<Longrightarrow> serializable v" for v
    by (auto simp: degree_centrality_def Let_def split: if_splits dest!: map_of_SomeD)
  then show ?thesis by (simp add: get_or_zero_def split: option.splits)
qed

lemma serializable_get_or_zero_bc:
  "serializable (get_or_zero (map (\<lambda>nr. (fst nr, PFloat (snd nr))) xs) entity)"
proof -
  have "map_of (map (\<lambda>nr. (fst nr, PFloat (snd nr))) xs) entity = Some v \<Longrightarrow> serializable v" for v
    by (auto dest!: map_of_SomeD)
  then show ?thesis by (simp add: get_or_zero_def split: option.splits)
qed

text \<open>The three parts of the results dictionary.\<close>

lemma query_results_wf:
  assumes "wf_digraph g"
  shows "query_results bc g entity query_type =
       Inr ((if query_type = PStr ''neighbors'' \<or> query_type = PStr ''all''
             then [(''neighbors'',
                    PDict [(''incoming'', PList (map (\<lambda>pd. neighbor_entry (fst pd) (snd pd)) (adj_of (pred_d g) entity))),
                           (''outgoing'', PList (map (\<lambda>sd. neighbor_entry (fst sd) (snd sd)) (adj_of (succ_d g) entity)))])]
             else []) @
            (if (query_type = PStr ''shortest_path'' \<or> query_type = PStr ''all'') \<and> length (node_d g) > 1
             then [(''shortest_paths'',
                    PDict (map (\<lambda>tp. (fst tp, PList (map PStr (snd tp)))) (shortest_paths_from g entity)))]
             else []) @
            (if query_type = PStr ''centrality'' \<or> query_type = PStr ''all''
             then [(''centrality'',
                    PDict [(''degree'', get_or_zero (degree_centrality g) entity),
                           (''betweenness'',
                            get_or_zero (map (\<lambda>nr. (fst nr, PFloat (snd nr))) (bc g)) entity)])]
             else []))"
  by (simp add: query_results_def neighbors_result_wf[OF assms] Let_def)

lemma query_results_serializable:
  assumes "wf_digraph g"
  shows "\<exists>results. query_results bc g entity query_type = Inr results \<and>
           list_all (\<lambda>kv. serializable (snd kv)) results"
  unfolding query_results_wf[OF assms]
  by (simp add: serializable_neighbor_entries serializable_paths serializable_get_or_zero_degree
      serializable_get_or_zero_bc)

section \<open>Shortest paths\<close>

lemma is_path_snoc:
  "is_path g (xs @ [w]) \<longleftrightarrow> xs = [] \<or> (is_path g xs \<and> w \<in> set (successors g (last xs)))"
  by (induction g xs rule: is_path.induct) auto

lemma is_path_nonempty: "is_path g p \<Longrightarrow> p \<noteq> []"
  by (cases p) simp_all

lemma bfs_sound:
  assumes "bfs g target queue seen = Some r"
    and "\<And>p. p \<in> set queue \<Longrightarrow> p \<noteq> [] \<Longrightarrow> is_path g (rev p) \<and> last p = source"
  shows "is_path g r \<and> hd r = source \<and> last r = target"
  using assms
proof (induction g target queue seen rule: bfs.induct)
  case (1 g target seen)
  then show ?case by simp
next
  case (2 g target queue seen)
  then show ?case by simp
next
  case (3 g target v p queue seen)
  have head: "is_path g (rev (v # p)) \<and> last (v # p) = source"
    using "3.prems"(2)[of "v # p"] by simp
  show ?case
  proof (cases "v = target")
    case True
    with "3.prems"(1) have r: "r = rev (v # p)" by simp
    have "hd (rev (v # p)) = last (v # p)" by (rule hd_rev)
    moreover have "last (rev (v # p)) = v" by simp
    ultimately show ?thesis using head True unfolding r by metis
  next
    case False
    let ?new = "filter (\<lambda>w. w \<notin> set seen) (successors g v)"
    from False "3.prems"(1)
    have run: "bfs g target (queue @ map (\<lambda>w. w # v # p) ?new) (seen @ ?new) = Some r"
      by (simp add: Let_def)
    have inv: "is_path g (rev q) \<and> last q = source"
      if "q \<in> set (queue @ map (\<lambda>w. w # v # p) ?new)" "q \<noteq> []" for q
    proof (cases "q \<in> set queue")
      case True
      then show ?thesis using "3.prems"(2)[of q] that(2) by simp
    next
      case False
      with that(1) obtain w where w: "w \<in> set (successors g v)" and q: "q = w # v # p" by auto
      have "is_path g (rev (v # p) @ [w])"
        unfolding is_path_snoc using head w by simp
      with q head show ?thesis by simp
    qed
    show ?thesis
      using "3.IH"[OF False refl run inv] by blast
  qed
qed

lemma shortest_path_sound:
  assumes "shortest_path g source target = Some p"
  shows "is_path g p \<and> hd p = source \<and> last p = target"
  using assms unfolding shortest_path_def
  by (rule bfs_sound) simp

lemma map_filter_mem: "y \<in> set (List.map_filter f xs) \<longleftrightarrow> (\<exists>x\<in>set xs. f x = Some y)"
  by (induction xs) (auto simp: map_filter_simps split: option.splits)

lemma shortest_paths_from_mem:
  "(t, p) \<in> set (shortest_paths_from g entity) \<longleftrightarrow>
     t \<in> set (node_d g) \<and> t \<noteq> entity \<and> shortest_path g entity t = Some p"
  unfolding shortest_paths_from_def map_filter_mem
  by (auto split: option.splits if_splits)

text \<open>
  The search is also complete: a target with a directed path from the source is found.
  A search that ends with \<open>None\<close> leaves behind a set of nodes that is closed under
  successors and does not contain the target.
\<close>

lemma bfs_None_closed:
  assumes "bfs g target queue seen = None"
    and "hd ` {q \<in> set queue. q \<noteq> []} \<subseteq> set seen"
    and "\<And>v. v \<in> set seen \<Longrightarrow> v \<in> hd ` {q \<in> set queue. q \<noteq> []} \<or> (v \<noteq> target \<and> set (successors g v) \<subseteq> set seen)"
  shows "\<exists>S. set seen \<subseteq> S \<and> target \<notin> S \<and> (\<forall>v\<in>S. set (successors g v) \<subseteq> S)"
  using assms
proof (induction g target queue seen rule: bfs.induct)
  case (1 g target seen)
  then have "\<And>v. v \<in> set seen \<Longrightarrow> v \<noteq> target \<and> set (successors g v) \<subseteq> set seen"
    by simp
  then show ?case by (intro exI[of _ "set seen"]) auto
next
  case (2 g target queue seen)
  have h: "hd ` {q \<in> set ([] # queue). q \<noteq> []} = hd ` {q \<in> set queue. q \<noteq> []}" by force
  show ?case
    using "2.IH" "2.prems" unfolding h by simp
next
  case (3 g target v p queue seen)
  have h: "hd ` {q \<in> set ((v # p) # queue). q \<noteq> []} = insert v (hd ` {q \<in> set queue. q \<noteq> []})" by force
  from "3.prems"(1) have vt: "v \<noteq> target" by (auto split: if_splits)
  let ?new = "filter (\<lambda>w. w \<notin> set seen) (successors g v)"
  from vt "3.prems"(1)
  have run: "bfs g target (queue @ map (\<lambda>w. w # v # p) ?new) (seen @ ?new) = None"
    by (simp add: Let_def)
  have h': "hd ` {q \<in> set (queue @ map (\<lambda>w. w # v # p) ?new). q \<noteq> []} = hd ` {q \<in> set queue. q \<noteq> []} \<union> set ?new"
    by force
  have sub: "hd ` {q \<in> set (queue @ map (\<lambda>w. w # v # p) ?new). q \<noteq> []} \<subseteq> set (seen @ ?new)"
    using "3.prems"(2) unfolding h h' by auto
  have inv: "x \<in> hd ` {q \<in> set (queue @ map (\<lambda>w. w # v # p) ?new). q \<noteq> []} \<or>
             (x \<noteq> target \<and> set (successors g x) \<subseteq> set (seen @ ?new))"
    if "x \<in> set (seen @ ?new)" for x
  proof (cases "x \<in> set ?new \<or> x \<in> hd ` {q \<in> set queue. q \<noteq> []}")
    case True
    then show ?thesis unfolding h' by blast
  next
    case False
    with that have xs: "x \<in> set seen" by auto
    show ?thesis
    proof (cases "x = v")
      case True
      with vt show ?thesis by auto
    next
      case False
      with xs \<open>\<not> (x \<in> set ?new \<or> x \<in> hd ` {q \<in> set queue. q \<noteq> []})\<close> "3.prems"(3)[of x]
      show ?thesis unfolding h by auto
    qed
  qed
  from "3.IH"[OF vt refl run sub inv]
  obtain S where "set (seen @ ?new) \<subseteq> S" "target \<notin> S" "\<forall>v\<in>S. set (successors g v) \<subseteq> S"
    by blast
  then show ?case by (intro exI[of _ S]) auto
qed

lemma is_path_stays:
  assumes "is_path g p" and "hd p \<in> S" and "\<forall>v\<in>S. set (successors g v) \<subseteq> S"
  shows "last p \<in> S"
  using assms
proof (induction g p rule: is_path.induct)
  case (1 g)
  then show ?case by simp
next
  case (2 g v)
  then show ?case by simp
next
  case (3 g u v p)
  then have "v \<in> S" by auto
  with 3 show ?case by simp
qed

lemma shortest_path_complete:
  assumes "is_path g p" and "hd p = source" and "last p = target"
  shows "shortest_path g source target \<noteq> None"
proof
  assume "shortest_path g source target = None"
  then have "bfs g target [[source]] [source] = None" by (simp add: shortest_path_def)
  then obtain S where "source \<in> S" "target \<notin> S" "\<forall>v\<in>S. set (successors g v) \<subseteq> S"
    using bfs_None_closed[of g target "[[source]]" "[source]"] by force
  with is_path_stays[OF assms(1), of S] assms(2,3) show False by simp
qed

lemma shortest_paths_from_complete:
  assumes "is_path g p" and "hd p = entity" and "last p = target"
    and "target \<in> set (node_d g)" and "target \<noteq> entity"
  shows "target \<in> fst ` set (shortest_paths_from g entity)"
proof -
  from shortest_path_complete[OF assms(1-3)] obtain q where "shortest_path g entity target = Some q"
    by blast
  with assms(4,5) have "(target, q) \<in> set (shortest_paths_from g entity)"
    by (simp add: shortest_paths_from_mem)
  then show ?thesis by force
qed

section \<open>Overwriting an edge\<close>

lemma add_node_implicit_present: "u \<in> fst ` set (succ_d g) \<Longrightarrow> add_node_implicit u g = g"
  by (simp add: add_node_implicit_def)

lemma edge_endpoints_present:
  assumes "wf_digraph g" and "map_of (adj_of (succ_d g) u) v = Some dd"
  shows "u \<in> fst ` set (succ_d g)" "v \<in> fst ` set (succ_d g)"
    "v \<in> fst ` set (adj_of (succ_d g) u)" "u \<in> fst ` set (adj_of (pred_d g) v)"
proof -
  from assms(2) have "adj_of (succ_d g) u \<noteq> []" by auto
  then show "u \<in> fst ` set (succ_d g)" by (rule adj_of_nonempty_key)
  from assms have p: "map_of (adj_of (pred_d g) v) u = Some dd" by (simp add: wf_digraph_iff)
  then have "adj_of (pred_d g) v \<noteq> []" by auto
  then have "v \<in> fst ` set (pred_d g)" by (rule adj_of_nonempty_key)
  moreover from assms(1) have "map fst (pred_d g) = map fst (succ_d g)" by (simp add: wf_digraph_iff)
  then have "fst ` set (pred_d g) = fst ` set (succ_d g)" by (metis set_map)
  ultimately show "v \<in> fst ` set (succ_d g)" by simp
  from assms(2) show "v \<in> fst ` set (adj_of (succ_d g) u)"
    by (metis map_of_eq_None_iff option.distinct(1))
  from p show "u \<in> fst ` set (adj_of (pred_d g) v)"
    by (metis map_of_eq_None_iff option.distinct(1))
qed

lemma add_edge_existing:
  assumes "wf_digraph g" and "map_of (adj_of (succ_d g) u) v = Some dd"
  shows "node_d (add_edge u v attr g) = node_d g"
    and "degree (add_edge u v attr g) n = degree g n"
    and "number_of_edges (add_edge u v attr g) = number_of_edges g"
    and "number_of_nodes (add_edge u v attr g) = number_of_nodes g"
proof -
  note ep = edge_endpoints_present[OF assms]
  show nd: "node_d (add_edge u v attr g) = node_d g"
    by (simp add: node_d_add_edge add_node_implicit_present ep)
  show dg: "degree (add_edge u v attr g) n = degree g n" for n
  proof -
    have "length (AList.update v x (adj_of (succ_d g) u)) = length (adj_of (succ_d g) u)" for x
      using ep(3) by (simp add: length_update)
    moreover have "length (AList.update u x (adj_of (pred_d g) v)) = length (adj_of (pred_d g) v)" for x
      using ep(4) by (simp add: length_update)
    ultimately show ?thesis
      by (auto simp: degree_def adj_of_succ_add_edge adj_of_pred_add_edge)
  qed
  have "degree (add_edge u v attr g) = degree g" by (rule ext) (rule dg)
  then show "number_of_edges (add_edge u v attr g) = number_of_edges g"
    by (simp add: number_of_edges_def nd)
  show "number_of_nodes (add_edge u v attr g) = number_of_nodes g"
    by (simp add: number_of_nodes_def nd)
qed

lemma edge_data_add_edge:
  assumes "wf_digraph g"
  shows "edge_data (add_edge u v attr g) u v = Inr (datadict_of g u v attr)"
  by (rule edge_data_succ) (simp add: adj_of_succ_add_edge update_conv')

lemma edge_data_iff:
  "wf_digraph g \<Longrightarrow> edge_data g u v = Inr dd \<longleftrightarrow> map_of (adj_of (succ_d g) u) v = Some dd"
  by (auto simp: edge_data_def adj_of_def split: option.splits)

section \<open>Degree centrality\<close>

lemma map_of_tabulate: "k \<in> set xs \<Longrightarrow> map_of (map (\<lambda>n. (n, f n)) xs) k = Some (f k)"
  by (induction xs) auto

lemma degree_centrality_value:
  assumes "has_node g entity" and "2 \<le> length (node_d g)"
  shows "get_or_zero (degree_centrality g) entity =
           PFloat (fmul (float_of_int (int (degree g entity)))
                        (fdiv 1 (fsub (float_of_int (int (length (node_d g)))) 1)))"
  using assms
  by (simp add: get_or_zero_def degree_centrality_def Let_def has_node_def map_of_tabulate)

lemma degree_in_out: "degree g n = length (predecessors g n) + length (successors g n)"
  by (simp add: degree_def predecessors_def successors_def)

lemma connected_others_length:
  assumes "wf_digraph g" and "entity \<notin> set (successors g entity)"
    and "set (predecessors g entity) \<inter> set (successors g entity) = {}"
  shows "length (connected_others g entity) = degree g entity"
proof -
  from assms(1) have ds: "distinct (successors g entity)" and dp: "distinct (predecessors g entity)"
    and eq: "map_of (adj_of (succ_d g) entity) entity = map_of (adj_of (pred_d g) entity) entity"
    by (simp_all add: wf_digraph_iff successors_def predecessors_def)
  have "entity \<notin> set (predecessors g entity)"
  proof
    assume "entity \<in> set (predecessors g entity)"
    then have "map_of (adj_of (pred_d g) entity) entity \<noteq> None"
      by (simp add: predecessors_def map_of_eq_None_iff)
    with eq have "map_of (adj_of (succ_d g) entity) entity \<noteq> None" by simp
    then have "entity \<in> set (successors g entity)"
      by (simp add: successors_def map_of_eq_None_iff)
    with assms(2) show False by simp
  qed
  with assms(2) have "\<forall>n \<in> set (predecessors g entity @ successors g entity). n \<noteq> entity"
    by auto
  then have "filter (\<lambda>n. n \<noteq> entity) (predecessors g entity @ successors g entity)
      = predecessors g entity @ successors g entity"
    by (simp only: filter_id_conv)
  moreover from ds dp assms(3) have "distinct (predecessors g entity @ successors g entity)"
    by simp
  ultimately show ?thesis
    by (simp add: connected_others_def degree_in_out distinct_remdups_id del: filter_append)
qed

section \<open>Resetting the graph\<close>

lemma get_graph_data_is_response:
  "get_graph_data g = Inr (PResponse (get_graph_data_dict g) 200)"
proof -
  have "field (get_graph_data_dict g) ''success'' = Some (PBool True)"
    by (simp add: get_graph_data_dict_def)
  then show ?thesis
    by (simp add: get_graph_data_def jsonify_def serializable_get_graph_data_dict Let_def)
qed

lemma clear_graph_try_eq:
  "clear_graph_try g =
     (Inl (TypeError ''Object of type Response is not JSON serializable''), knowledge_graph_init)"
  by (simp add: clear_graph_try_def Let_def get_graph_data_is_response respond_def jsonify_def
      knowledge_graph_init_def)

lemma sample_nodes:
  "node_d knowledge_graph_init =
     [''John Doe'', ''Computer Science'', ''Dr. Smith'', ''Jane Smith'', ''Machine Learning'',
      ''Dr. Johnson'', ''Data Structures'', ''Engineering Department'', ''Research Group A'']"
  by code_simp

lemma sample_edges:
  "map (\<lambda>e. (fst e, relationship_of (snd (snd e)), fst (snd e))) (edges_data knowledge_graph_init) =
     [(''John Doe'', ''enrolled_in'', ''Computer Science''),
      (''John Doe'', ''advised_by'', ''Dr. Smith''),
      (''John Doe'', ''member_of'', ''Research Group A''),
      (''Computer Science'', ''part_of'', ''Engineering Department''),
      (''Dr. Smith'', ''teaches'', ''Machine Learning''),
      (''Dr. Smith'', ''belongs_to'', ''Computer Science''),
      (''Jane Smith'', ''enrolled_in'', ''Computer Science''),
      (''Jane Smith'', ''advised_by'', ''Dr. Smith''),
      (''Machine Learning'', ''offered_by'', ''Computer Science''),
      (''Dr. Johnson'', ''teaches'', ''Data Structures''),
      (''Dr. Johnson'', ''belongs_to'', ''Computer Science''),
      (''Data Structures'', ''offered_by'', ''Computer Science''),
      (''Research Group A'', ''led_by'', ''Dr. Smith'')]"
  by code_simp

lemma sample_edge_set:
  "set (map (\<lambda>e. (fst e, relationship_of (snd (snd e)), fst (snd e)))
            (edges_data knowledge_graph_init)) = set sample_relationships"
  by code_simp

lemma sample_number_of_nodes: "number_of_nodes knowledge_graph_init = 9"
  by code_simp

lemma sample_number_of_edges: "number_of_edges knowledge_graph_init = 13"
  by code_simp

lemma wf_sample: "wf_digraph knowledge_graph_init"
  by code_simp

text \<open>
  C5. Whatever the graph was, after \<^verbatim>\<open>clear_graph\<close> the global graph is the freshly seeded
  one: the nine sample entities, the thirteen sample relationships with their labels, and
  nothing else.
\<close>

theorem clear_graph_resets:
  "snd (clear_graph g) = knowledge_graph_init \<and>
   node_d (snd (clear_graph g)) =
     [''John Doe'', ''Computer Science'', ''Dr. Smith'', ''Jane Smith'', ''Machine Learning'',
      ''Dr. Johnson'', ''Data Structures'', ''Engineering Department'', ''Research Group A''] \<and>
   set (map (\<lambda>e. (fst e, relationship_of (snd (snd e)), fst (snd e)))
            (edges_data (snd (clear_graph g)))) = set sample_relationships \<and>
   number_of_nodes (snd (clear_graph g)) = 9 \<and>
   number_of_edges (snd (clear_graph g)) = 13"
proof -
  have reset: "snd (clear_graph g) = knowledge_graph_init"
    by (simp add: clear_graph_def clear_graph_try_eq)
  show ?thesis
    unfolding reset
    using sample_nodes sample_edge_set sample_number_of_nodes sample_number_of_edges
    by blast
qed

theorem clear_graph_resets_witness:
  "number_of_edges (snd (clear_graph (snd (add_relationship DiGraph
      (PDict [(''entity1'', PStr ''A''), (''relationship'', PStr ''knows''),
              (''entity2'', PStr ''B'')]))))) = 13"
  using clear_graph_resets by blast

text \<open>
  C6. The handler passes the value of the view function \<^verbatim>\<open>get_graph_data()\<close>, a
  \<^verbatim>\<open>Response\<close> object, to \<^verbatim>\<open>jsonify\<close>, where the other handlers pass
  \<^verbatim>\<open>get_graph_data_dict()\<close>. The encoder rejects it, so on every graph the answer of
  \<^verbatim>\<open>clear_graph\<close> is the failure envelope with status 500, never the success envelope.
\<close>

theorem clear_graph_always_fails:
  "fst (clear_graph g) =
     (PDict [(''success'', PBool False),
             (''message'', PStr ''Error clearing graph: Object of type Response is not JSON serializable'')],
      500)"
  by (simp add: clear_graph_def clear_graph_try_eq error_response_def)

section \<open>Graphs the service can hold\<close>

text \<open>
  Every graph the service can hold is well-formed and has at least the nine sample
  entities: entities are never removed, and a reset seeds the graph again.
\<close>

lemma clear_graph_state: "snd (clear_graph g) = knowledge_graph_init"
  by (simp add: clear_graph_def clear_graph_try_eq)

lemma add_relationship_try_state:
  "snd (add_relationship_try g data) = g \<or>
   (\<exists>u v r. snd (add_relationship_try g data) = add_edge u v [(''relationship'', r)] g)"
  unfolding add_relationship_try_def
  by (simp add: Let_def split: sum.splits) blast

lemma add_relationship_state:
  "snd (add_relationship g data) = g \<or>
   (\<exists>u v r. snd (add_relationship g data) = add_edge u v [(''relationship'', r)] g)"
proof -
  have "snd (add_relationship g data) = snd (add_relationship_try g data)"
    by (cases "add_relationship_try g data") (simp add: add_relationship_def split: sum.splits)
  then show ?thesis using add_relationship_try_state[of g data] by simp
qed

lemma process_row_state:
  "fst (process_row cols (index, row) (g, added_count, errors)) = g \<or>
   (\<exists>u v r. fst (process_row cols (index, row) (g, added_count, errors))
              = add_edge u v [(''relationship'', r)] g)"
  unfolding process_row_def
  by (simp add: Let_def split: sum.splits) blast

lemma number_of_nodes_add_edge: "number_of_nodes g \<le> number_of_nodes (add_edge u v attr g)"
  by (simp add: number_of_nodes_def node_d_add_edge add_node_implicit_def)

lemma process_row_inv:
  assumes "wf_digraph (fst st)" and "n \<le> number_of_nodes (fst st)"
  shows "wf_digraph (fst (process_row cols ir st)) \<and> n \<le> number_of_nodes (fst (process_row cols ir st))"
proof -
  obtain index row where ir: "ir = (index, row)" by (cases ir)
  obtain g added_count errors where st: "st = (g, added_count, errors)" by (cases st)
  from process_row_state[of cols index row g added_count errors]
  show ?thesis
  proof
    assume "fst (process_row cols (index, row) (g, added_count, errors)) = g"
    with assms show ?thesis by (simp add: ir st)
  next
    assume "\<exists>u v r. fst (process_row cols (index, row) (g, added_count, errors))
              = add_edge u v [(''relationship'', r)] g"
    then obtain u v r where "fst (process_row cols ir st) = add_edge u v [(''relationship'', r)] g"
      by (auto simp: ir st)
    moreover have "wf_digraph (add_edge u v [(''relationship'', r)] g)"
      using assms(1) by (simp add: st wf_add_edge)
    moreover have "n \<le> number_of_nodes (add_edge u v [(''relationship'', r)] g)"
      using assms(2) number_of_nodes_add_edge[of g u v] by (simp add: st) (meson le_trans)
    ultimately show ?thesis by simp
  qed
qed

lemma fold_process_row_inv:
  assumes "wf_digraph (fst st)" and "n \<le> number_of_nodes (fst st)"
  shows "wf_digraph (fst (fold (process_row cols) irs st)) \<and>
         n \<le> number_of_nodes (fst (fold (process_row cols) irs st))"
  using assms
proof (induction irs arbitrary: st)
  case Nil
  then show ?case by simp
next
  case (Cons ir irs)
  from process_row_inv[OF Cons.prems, of cols ir]
  have "wf_digraph (fst (process_row cols ir st))" "n \<le> number_of_nodes (fst (process_row cols ir st))"
    by simp_all
  from Cons.IH[OF this] show ?case by simp
qed

lemma upload_csv_try_state:
  "snd (upload_csv_try g files) = g \<or> (\<exists>df. snd (upload_csv_try g files) = fst (process_rows df g))"
  unfolding upload_csv_try_def
  by (simp split: option.splits prod.splits sum.splits) (metis fst_conv)

lemma upload_csv_state:
  "snd (upload_csv g files) = g \<or> (\<exists>df. snd (upload_csv g files) = fst (process_rows df g))"
proof -
  have "snd (upload_csv g files) = snd (upload_csv_try g files)"
    by (cases "upload_csv_try g files") (simp add: upload_csv_def split: sum.splits)
  then show ?thesis using upload_csv_try_state[of g files] by simp
qed

lemma reachable_inv: "reachable g \<Longrightarrow> wf_digraph g \<and> 9 \<le> number_of_nodes g"
proof (induction rule: reachable.induct)
  case start
  show ?case by (simp add: wf_sample sample_number_of_nodes)
next
  case (added g data)
  from add_relationship_state[of g data] show ?case
  proof
    assume "snd (add_relationship g data) = g"
    with added.IH show ?thesis by simp
  next
    assume "\<exists>u v r. snd (add_relationship g data) = add_edge u v [(''relationship'', r)] g"
    then obtain u v r where s: "snd (add_relationship g data) = add_edge u v [(''relationship'', r)] g"
      by blast
    have "9 \<le> number_of_nodes (add_edge u v [(''relationship'', r)] g)"
      using added.IH number_of_nodes_add_edge[of g u v] by (meson le_trans)
    with added.IH show ?thesis unfolding s by (simp add: wf_add_edge)
  qed
next
  case (uploaded g files)
  have "wf_digraph (fst (process_rows df g)) \<and> 9 \<le> number_of_nodes (fst (process_rows df g))" for df
    unfolding process_rows_def using uploaded.IH by (intro fold_process_row_inv) simp_all
  then show ?case
    using upload_csv_state[of g files] uploaded.IH by auto
next
  case (cleared g)
  show ?case by (simp add: clear_graph_state wf_sample sample_number_of_nodes)
qed

section \<open>Adding relationships through the API\<close>

text \<open>
  C1. A request to \<^verbatim>\<open>/api/add_relationship\<close> whose three fields are non-empty after
  trimming succeeds with status 200 and \<open>success = true\<close>; the edge with its label is in
  the \<open>graph_data\<close> snapshot of the answer; a neighbours query for the first entity on the
  graph left behind lists the second entity with the label among the outgoing
  relationships, and a neighbours query for the second entity lists the first among the
  incoming ones.
\<close>

theorem add_relationship_visible:
  assumes wf: "wf_digraph g"
    and e1: "get_stripped data ''entity1'' = Inr entity1"
    and r: "get_stripped data ''relationship'' = Inr relationship"
    and e2: "get_stripped data ''entity2'' = Inr entity2"
    and ne: "entity1 \<noteq> []" "relationship \<noteq> []" "entity2 \<noteq> []"
    and q1: "get_stripped q1 ''entity'' = Inr entity1"
            "py_get q1 ''query_type'' (PStr []) = Inr (PStr ''neighbors'')"
    and q2: "get_stripped q2 ''entity'' = Inr entity2"
            "py_get q2 ''query_type'' (PStr []) = Inr (PStr ''neighbors'')"
  shows "\<exists>body g' es b1 out b2 inc.
           add_relationship g data = ((body, 200), g') \<and>
           field body ''success'' = Some (PBool True) \<and>
           lookup_path body [''graph_data'', ''edges''] = Some (PList es) \<and>
           PDict [(''from'', PStr entity1), (''to'', PStr entity2),
                  (''label'', PStr relationship), (''arrows'', PStr ''to''),
                  (''title'', PStr (entity1 @ '' --['' @ relationship @ '']--> '' @ entity2))]
             \<in> set es \<and>
           query_graph bc g' q1 = (b1, 200) \<and>
           field b1 ''success'' = Some (PBool True) \<and>
           lookup_path b1 [''results'', ''neighbors'', ''outgoing''] = Some (PList out) \<and>
           PDict [(''entity'', PStr entity2), (''relationship'', PStr relationship)] \<in> set out \<and>
           query_graph bc g' q2 = (b2, 200) \<and>
           field b2 ''success'' = Some (PBool True) \<and>
           lookup_path b2 [''results'', ''neighbors'', ''incoming''] = Some (PList inc) \<and>
           PDict [(''entity'', PStr entity1), (''relationship'', PStr relationship)] \<in> set inc"
proof -
  let ?attr = "[(''relationship'', relationship)]"
  let ?g' = "add_edge entity1 entity2 ?attr g"
  let ?dd = "datadict_of g entity1 entity2 ?attr"
  let ?nb = "\<lambda>e. PDict [(''incoming'', PList (map (\<lambda>pd. neighbor_entry (fst pd) (snd pd)) (adj_of (pred_d ?g') e))),
                        (''outgoing'', PList (map (\<lambda>sd. neighbor_entry (fst sd) (snd sd)) (adj_of (succ_d ?g') e)))]"
  have wf': "wf_digraph ?g'" using wf by (rule wf_add_edge)
  have add: "add_relationship g data =
       ((PDict [(''success'', PBool True),
                (''message'', PStr (''Relationship added: '' @ entity1 @ '' --['' @
                                    relationship @ '']--> '' @ entity2)),
                (''graph_data'', get_graph_data_dict ?g')], 200), ?g')"
    using e1 r e2 ne by (rule add_relationship_accepts)
  have edge: "edge_entry (entity1, entity2, ?dd) \<in> set (map edge_entry (edges_data ?g'))"
    using edge_in_edges_data_add_edge[OF wf, of entity1 entity2 ?attr] by simp
  have entry: "edge_entry (entity1, entity2, ?dd) =
       PDict [(''from'', PStr entity1), (''to'', PStr entity2),
              (''label'', PStr relationship), (''arrows'', PStr ''to''),
              (''title'', PStr (entity1 @ '' --['' @ relationship @ '']--> '' @ entity2))]"
    by (simp add: edge_entry_def)
  have res: "query_results bc ?g' e (PStr ''neighbors'') = Inr [(''neighbors'', ?nb e)]" for e
    by (simp add: query_results_wf[OF wf'])
  have ser: "list_all (\<lambda>kv. serializable (snd kv)) [(''neighbors'', ?nb e)]" for e
    by (simp add: list_all_iff neighbor_entry_def)
  have qa: "query_graph bc ?g' q1 =
       (PDict [(''success'', PBool True), (''entity'', PStr entity1),
               (''query_type'', PStr ''neighbors''), (''results'', PDict [(''neighbors'', ?nb entity1)])], 200)"
    by (rule query_graph_found[OF q1(1) ne(1) has_node_add_edge(1)[OF wf] q1(2) res _ ser]) simp
  have qb: "query_graph bc ?g' q2 =
       (PDict [(''success'', PBool True), (''entity'', PStr entity2),
               (''query_type'', PStr ''neighbors''), (''results'', PDict [(''neighbors'', ?nb entity2)])], 200)"
    by (rule query_graph_found[OF q2(1) ne(3) has_node_add_edge(2)[OF wf] q2(2) res _ ser]) simp
  have out: "neighbor_entry entity2 ?dd
       \<in> set (map (\<lambda>sd. neighbor_entry (fst sd) (snd sd)) (adj_of (succ_d ?g') entity1))"
    using update_mem[of entity2 ?dd "adj_of (succ_d g) entity1"]
    by (force simp: adj_of_succ_add_edge)
  have inc: "neighbor_entry entity1 ?dd
       \<in> set (map (\<lambda>pd. neighbor_entry (fst pd) (snd pd)) (adj_of (pred_d ?g') entity2))"
    using update_mem[of entity1 ?dd "adj_of (pred_d g) entity2"]
    by (force simp: adj_of_pred_add_edge)
  have nb1: "neighbor_entry entity2 ?dd =
      PDict [(''entity'', PStr entity2), (''relationship'', PStr relationship)]"
    and nb2: "neighbor_entry entity1 ?dd =
      PDict [(''entity'', PStr entity1), (''relationship'', PStr relationship)]"
    by (simp_all add: neighbor_entry_def)
  let ?body = "PDict [(''success'', PBool True),
                (''message'', PStr (''Relationship added: '' @ entity1 @ '' --['' @
                                    relationship @ '']--> '' @ entity2)),
                (''graph_data'', get_graph_data_dict ?g')]"
  let ?b1 = "PDict [(''success'', PBool True), (''entity'', PStr entity1),
               (''query_type'', PStr ''neighbors''), (''results'', PDict [(''neighbors'', ?nb entity1)])]"
  let ?b2 = "PDict [(''success'', PBool True), (''entity'', PStr entity2),
               (''query_type'', PStr ''neighbors''), (''results'', PDict [(''neighbors'', ?nb entity2)])]"
  have "add_relationship g data = ((?body, 200), ?g') \<and>
        field ?body ''success'' = Some (PBool True) \<and>
        lookup_path ?body [''graph_data'', ''edges''] = Some (PList (map edge_entry (edges_data ?g'))) \<and>
        edge_entry (entity1, entity2, ?dd) \<in> set (map edge_entry (edges_data ?g')) \<and>
        query_graph bc ?g' q1 = (?b1, 200) \<and>
        field ?b1 ''success'' = Some (PBool True) \<and>
        lookup_path ?b1 [''results'', ''neighbors'', ''outgoing''] =
          Some (PList (map (\<lambda>sd. neighbor_entry (fst sd) (snd sd)) (adj_of (succ_d ?g') entity1))) \<and>
        neighbor_entry entity2 ?dd
          \<in> set (map (\<lambda>sd. neighbor_entry (fst sd) (snd sd)) (adj_of (succ_d ?g') entity1)) \<and>
        query_graph bc ?g' q2 = (?b2, 200) \<and>
        field ?b2 ''success'' = Some (PBool True) \<and>
        lookup_path ?b2 [''results'', ''neighbors'', ''incoming''] =
          Some (PList (map (\<lambda>pd. neighbor_entry (fst pd) (snd pd)) (adj_of (pred_d ?g') entity2))) \<and>
        neighbor_entry entity1 ?dd
          \<in> set (map (\<lambda>pd. neighbor_entry (fst pd) (snd pd)) (adj_of (pred_d ?g') entity2))"
    using add edge qa out qb inc by (simp add: get_graph_data_dict_def)
  then show ?thesis
    unfolding entry nb1 nb2 by blast
qed

theorem add_relationship_visible_witness:
  "\<exists>body g' b1 out b2 inc.
     add_relationship knowledge_graph_init
       (PDict [(''entity1'', PStr '' A ''), (''relationship'', PStr ''knows''),
               (''entity2'', PStr ''B'')]) = ((body, 200), g') \<and>
     field body ''success'' = Some (PBool True) \<and>
     query_graph betweenness_zero g'
       (PDict [(''entity'', PStr ''A''), (''query_type'', PStr ''neighbors'')]) = (b1, 200) \<and>
     lookup_path b1 [''results'', ''neighbors'', ''outgoing''] = Some (PList out) \<and>
     PDict [(''entity'', PStr ''B''), (''relationship'', PStr ''knows'')] \<in> set out \<and>
     query_graph betweenness_zero g'
       (PDict [(''entity'', PStr ''B''), (''query_type'', PStr ''neighbors'')]) = (b2, 200) \<and>
     lookup_path b2 [''results'', ''neighbors'', ''incoming''] = Some (PList inc) \<and>
     PDict [(''entity'', PStr ''A''), (''relationship'', PStr ''knows'')] \<in> set inc"
proof -
  let ?data = "PDict [(''entity1'', PStr '' A ''), (''relationship'', PStr ''knows''),
                      (''entity2'', PStr ''B'')]"
  let ?q1 = "PDict [(''entity'', PStr ''A''), (''query_type'', PStr ''neighbors'')]"
  let ?q2 = "PDict [(''entity'', PStr ''B''), (''query_type'', PStr ''neighbors'')]"
  have e1: "get_stripped ?data ''entity1'' = Inr ''A''" by code_simp
  have r: "get_stripped ?data ''relationship'' = Inr ''knows''" by code_simp
  have e2: "get_stripped ?data ''entity2'' = Inr ''B''" by code_simp
  have q1: "get_stripped ?q1 ''entity'' = Inr ''A''"
    "py_get ?q1 ''query_type'' (PStr []) = Inr (PStr ''neighbors'')" by code_simp+
  have q2: "get_stripped ?q2 ''entity'' = Inr ''B''"
    "py_get ?q2 ''query_type'' (PStr []) = Inr (PStr ''neighbors'')" by code_simp+
  have ne: "''A'' \<noteq> []" "''knows'' \<noteq> []" "''B'' \<noteq> []" by simp_all
  show ?thesis
    using add_relationship_visible[OF wf_sample e1 r e2 ne q1 q2, of betweenness_zero]
    by blast
qed




section \<open>Queries through the API\<close>

text \<open>
  C3, as amended. The handler tests for a blank entity before it looks the entity up, so
  the blank name is answered with status 400. For every request whose entity is non-empty
  after trimming and, trimmed, is not a node of the graph, the answer is the failure
  envelope with status 404 and no results, whatever the query type.
\<close>

theorem query_unknown_entity_not_found:
  assumes "get_stripped data ''entity'' = Inr entity" and "entity \<noteq> []"
    and "\<not> has_node g entity"
  shows "query_graph bc g data =
     (PDict [(''success'', PBool False),
             (''message'', PStr (''Entity '' @ [CHR 0x22] @ entity @ [CHR 0x22] @
                                 '' not found in the graph''))],
      404) \<and>
     field (fst (query_graph bc g data)) ''results'' = None"
  using query_graph_unknown[OF assms, of bc] by simp

theorem query_unknown_entity_not_found_witness:
  "snd (query_graph betweenness_zero knowledge_graph_init
         (PDict [(''entity'', PStr ''Nobody''), (''query_type'', PStr ''centrality'')])) = 404"
proof -
  let ?data = "PDict [(''entity'', PStr ''Nobody''), (''query_type'', PStr ''centrality'')]"
  have e: "get_stripped ?data ''entity'' = Inr ''Nobody''" by code_simp
  have ne: "''Nobody'' \<noteq> []" by simp
  have absent: "\<not> has_node knowledge_graph_init ''Nobody''" by code_simp
  show ?thesis
    using query_unknown_entity_not_found[OF e ne absent, of betweenness_zero] by simp
qed

text \<open>
  The claim as stated fails at the empty entity name: it is not a node of the seeded
  graph, and the query is refused with status 400, not 404.
\<close>

theorem query_blank_entity_counterexample:
  "\<not> has_node knowledge_graph_init [] \<and>
   snd (query_graph betweenness_zero knowledge_graph_init
         (PDict [(''entity'', PStr []), (''query_type'', PStr ''neighbors'')])) = 400 \<and>
   snd (query_graph betweenness_zero knowledge_graph_init
         (PDict [(''entity'', PStr []), (''query_type'', PStr ''neighbors'')])) \<noteq> 404"
proof -
  have "\<not> has_node knowledge_graph_init []" by code_simp
  moreover have "get_stripped (PDict [(''entity'', PStr []), (''query_type'', PStr ''neighbors'')])
                   ''entity'' = Inr []" by code_simp
  ultimately show ?thesis by (simp add: query_graph_blank)
qed

text \<open>
  C10. A query for an entity of the graph with a query type that is none of the four known
  ones (a missing query type reads as the empty string) succeeds with status 200 and an
  empty results object.
\<close>

theorem query_unknown_type_succeeds:
  assumes "get_stripped data ''entity'' = Inr entity" and "entity \<noteq> []"
    and "has_node g entity"
    and "py_get data ''query_type'' (PStr []) = Inr query_type"
    and "query_type \<notin> set [PStr ''neighbors'', PStr ''shortest_path'', PStr ''centrality'', PStr ''all'']"
    and "serializable query_type"
  shows "query_graph bc g data =
     (PDict [(''success'', PBool True), (''entity'', PStr entity),
             (''query_type'', query_type), (''results'', PDict [])],
      200)"
proof -
  from assms(5) have "query_results bc g entity query_type = Inr []"
    by (intro query_results_other) auto
  then show ?thesis
    by (rule query_graph_found[OF assms(1-4) _ assms(6)]) simp
qed

theorem query_unknown_type_succeeds_witness:
  "query_graph betweenness_zero knowledge_graph_init (PDict [(''entity'', PStr ''Dr. Smith'')]) =
     (PDict [(''success'', PBool True), (''entity'', PStr ''Dr. Smith''),
             (''query_type'', PStr []), (''results'', PDict [])],
      200)"
proof -
  let ?data = "PDict [(''entity'', PStr ''Dr. Smith'')]"
  have e: "get_stripped ?data ''entity'' = Inr ''Dr. Smith''" by code_simp
  have ne: "''Dr. Smith'' \<noteq> []" by simp
  have node: "has_node knowledge_graph_init ''Dr. Smith''" by code_simp
  have qt: "py_get ?data ''query_type'' (PStr []) = Inr (PStr [])" by code_simp
  have other: "PStr [] \<notin> set [PStr ''neighbors'', PStr ''shortest_path'', PStr ''centrality'',
                               PStr ''all'']" by simp
  have ser: "serializable (PStr [])" by simp
  show ?thesis
    by (rule query_unknown_type_succeeds[OF e ne node qt other ser])
qed

text \<open>
  C4. A shortest-path query (alone or as part of \<open>all\<close>) for an entity of the graph
  succeeds. In its \<open>shortest_paths\<close> dictionary the entity itself is never a key; the
  value under a key is a directed path of the graph that starts with the entity and ends
  with the key; and a target that no directed path reaches from the entity is not a key.
\<close>

theorem shortest_paths_shape:
  assumes wf: "wf_digraph g"
    and e: "get_stripped data ''entity'' = Inr entity" and ne: "entity \<noteq> []"
    and node: "has_node g entity"
    and qt: "py_get data ''query_type'' (PStr []) = Inr query_type"
    and kind: "query_type = PStr ''shortest_path'' \<or> query_type = PStr ''all''"
  shows "\<exists>body. query_graph bc g data = (body, 200) \<and>
           field body ''success'' = Some (PBool True) \<and>
           (1 < length (node_d g) \<longrightarrow>
             (\<exists>paths. lookup_path body [''results'', ''shortest_paths''] = Some (PDict paths) \<and>
                entity \<notin> fst ` set paths \<and>
                (\<forall>(target, v) \<in> set paths.
                   \<exists>p. v = PList (map PStr p) \<and> is_path g p \<and> hd p = entity \<and> last p = target) \<and>
                (\<forall>target. (\<nexists>p. is_path g p \<and> hd p = entity \<and> last p = target)
                           \<longrightarrow> target \<notin> fst ` set paths)))"
proof -
  let ?paths = "map (\<lambda>tp. (fst tp, PList (map PStr (snd tp)))) (shortest_paths_from g entity)"
  obtain results where res: "query_results bc g entity query_type = Inr results"
    and ser: "list_all (\<lambda>kv. serializable (snd kv)) results"
    using query_results_serializable[OF wf] by blast
  have sq: "serializable query_type" using kind by auto
  let ?body = "PDict [(''success'', PBool True), (''entity'', PStr entity),
                      (''query_type'', query_type), (''results'', PDict results)]"
  have q: "query_graph bc g data = (?body, 200)"
    by (rule query_graph_found[OF e ne node qt res sq ser])
  have sp: "map_of results ''shortest_paths'' = Some (PDict ?paths)" if "1 < length (node_d g)"
    using res that kind unfolding query_results_wf[OF wf] by auto
  have shape: "\<exists>p. v = PList (map PStr p) \<and> is_path g p \<and> hd p = entity \<and> last p = target"
    if "(target, v) \<in> set ?paths" for target v
  proof -
    from that obtain p where "(target, p) \<in> set (shortest_paths_from g entity)"
      and v: "v = PList (map PStr p)" by auto
    then have "shortest_path g entity target = Some p" by (simp add: shortest_paths_from_mem)
    from shortest_path_sound[OF this] v show ?thesis by blast
  qed
  have notself: "entity \<notin> fst ` set ?paths"
    by (auto simp: shortest_paths_from_mem)
  have omitted: "target \<notin> fst ` set ?paths"
    if "\<nexists>p. is_path g p \<and> hd p = entity \<and> last p = target" for target
  proof
    assume "target \<in> fst ` set ?paths"
    then obtain v where "(target, v) \<in> set ?paths" by force
    from shape[OF this] that show False by blast
  qed
  have "field ?body ''success'' = Some (PBool True)" by simp
  moreover have "1 < length (node_d g) \<longrightarrow>
      (\<exists>paths. lookup_path ?body [''results'', ''shortest_paths''] = Some (PDict paths) \<and>
                entity \<notin> fst ` set paths \<and>
                (\<forall>(target, v) \<in> set paths.
                   \<exists>p. v = PList (map PStr p) \<and> is_path g p \<and> hd p = entity \<and> last p = target) \<and>
                (\<forall>target. (\<nexists>p. is_path g p \<and> hd p = entity \<and> last p = target)
                           \<longrightarrow> target \<notin> fst ` set paths))"
  proof
    assume big: "1 < length (node_d g)"
    have "lookup_path ?body [''results'', ''shortest_paths''] = Some (PDict ?paths)"
      using sp[OF big] by simp
    moreover have "\<forall>(target, v) \<in> set ?paths.
                   \<exists>p. v = PList (map PStr p) \<and> is_path g p \<and> hd p = entity \<and> last p = target"
      using shape by blast
    ultimately show "\<exists>paths. lookup_path ?body [''results'', ''shortest_paths''] = Some (PDict paths) \<and>
                entity \<notin> fst ` set paths \<and>
                (\<forall>(target, v) \<in> set paths.
                   \<exists>p. v = PList (map PStr p) \<and> is_path g p \<and> hd p = entity \<and> last p = target) \<and>
                (\<forall>target. (\<nexists>p. is_path g p \<and> hd p = entity \<and> last p = target)
                           \<longrightarrow> target \<notin> fst ` set paths)"
      using notself omitted by blast
  qed
  ultimately show ?thesis using q by blast
qed

theorem shortest_paths_shape_witness:
  "\<exists>body paths.
     query_graph betweenness_zero knowledge_graph_init
       (PDict [(''entity'', PStr ''John Doe''), (''query_type'', PStr ''shortest_path'')])
       = (body, 200) \<and>
     field body ''success'' = Some (PBool True) \<and>
     lookup_path body [''results'', ''shortest_paths''] = Some (PDict paths) \<and>
     ''John Doe'' \<notin> fst ` set paths \<and>
     ''Jane Smith'' \<notin> fst ` set paths \<and>
     (''Engineering Department'',
      PList [PStr ''John Doe'', PStr ''Computer Science'', PStr ''Engineering Department''])
       \<in> set paths"
proof -
  let ?data = "PDict [(''entity'', PStr ''John Doe''), (''query_type'', PStr ''shortest_path'')]"
  have e: "get_stripped ?data ''entity'' = Inr ''John Doe''" by code_simp
  have ne: "''John Doe'' \<noteq> []" by simp
  have node: "has_node knowledge_graph_init ''John Doe''" by code_simp
  have qt: "py_get ?data ''query_type'' (PStr []) = Inr (PStr ''shortest_path'')" by code_simp
  have kind: "PStr ''shortest_path'' = PStr ''shortest_path'' \<or> PStr ''shortest_path'' = PStr ''all''"
    by simp
  have big: "1 < length (node_d knowledge_graph_init)" by code_simp
  have ev: "lookup_path (fst (query_graph betweenness_zero knowledge_graph_init ?data))
              [''results'', ''shortest_paths''] =
            Some (PDict
              [(''Computer Science'', PList [PStr ''John Doe'', PStr ''Computer Science'']),
               (''Dr. Smith'', PList [PStr ''John Doe'', PStr ''Dr. Smith'']),
               (''Machine Learning'',
                PList [PStr ''John Doe'', PStr ''Dr. Smith'', PStr ''Machine Learning'']),
               (''Engineering Department'',
                PList [PStr ''John Doe'', PStr ''Computer Science'', PStr ''Engineering Department'']),
               (''Research Group A'', PList [PStr ''John Doe'', PStr ''Research Group A''])])"
    by code_simp
  from shortest_paths_shape[OF wf_sample e ne node qt kind, of betweenness_zero] big
  obtain body paths where q: "query_graph betweenness_zero knowledge_graph_init ?data = (body, 200)"
    and ok: "field body ''success'' = Some (PBool True)"
    and sp: "lookup_path body [''results'', ''shortest_paths''] = Some (PDict paths)"
    and self: "''John Doe'' \<notin> fst ` set paths"
    by blast
  from ev q sp have "paths =
              [(''Computer Science'', PList [PStr ''John Doe'', PStr ''Computer Science'']),
               (''Dr. Smith'', PList [PStr ''John Doe'', PStr ''Dr. Smith'']),
               (''Machine Learning'',
                PList [PStr ''John Doe'', PStr ''Dr. Smith'', PStr ''Machine Learning'']),
               (''Engineering Department'',
                PList [PStr ''John Doe'', PStr ''Computer Science'', PStr ''Engineering Department'']),
               (''Research Group A'', PList [PStr ''John Doe'', PStr ''Research Group A''])]"
    by simp
  then have "''Jane Smith'' \<notin> fst ` set paths"
    and "(''Engineering Department'',
          PList [PStr ''John Doe'', PStr ''Computer Science'', PStr ''Engineering Department''])
           \<in> set paths"
    by simp_all
  with q ok sp self show ?thesis by blast
qed

text \<open>
  C9. The degree value is the fraction of the other entities that are directly connected
  to the entity: so says the claim, and so says the handler's comment. The library's
  degree counts relationships, not neighbours, and a neighbour connected in both directions
  is counted twice. After \<^verbatim>\<open>Computer Science --[hosts]--> John Doe\<close> is added to the seeded
  graph, John Doe is connected to three of the eight other entities, and the degree value
  of the centrality query is \<^verbatim>\<open>4 * (1.0 / 8.0)\<close>, which is 0.5 and not 3/8.
\<close>

theorem centrality_counts_two_way_neighbour_twice:
  "lookup_path (fst (query_graph betweenness_zero
      (snd (add_relationship knowledge_graph_init
         (PDict [(''entity1'', PStr ''Computer Science''), (''relationship'', PStr ''hosts''),
                 (''entity2'', PStr ''John Doe'')])))
      (PDict [(''entity'', PStr ''John Doe''), (''query_type'', PStr ''centrality'')])))
     [''results'', ''centrality'', ''degree''] = Some (PFloat (1 / 2)) \<and>
   connected_others
      (snd (add_relationship knowledge_graph_init
         (PDict [(''entity1'', PStr ''Computer Science''), (''relationship'', PStr ''hosts''),
                 (''entity2'', PStr ''John Doe'')]))) ''John Doe''
     = [''Computer Science'', ''Dr. Smith'', ''Research Group A''] \<and>
   connected_fraction
      (snd (add_relationship knowledge_graph_init
         (PDict [(''entity1'', PStr ''Computer Science''), (''relationship'', PStr ''hosts''),
                 (''entity2'', PStr ''John Doe'')]))) ''John Doe'' = 3 / 8"
  by code_simp

section \<open>Overwriting and bulk import\<close>

text \<open>
  C7. When the ordered pair already has a relationship, adding a relationship for the same
  pair leaves the new label as the one stored for the pair, and the numbers of edges and
  of nodes are what they were.
\<close>

theorem add_relationship_overwrites:
  assumes wf: "wf_digraph g"
    and e1: "get_stripped data ''entity1'' = Inr entity1"
    and r: "get_stripped data ''relationship'' = Inr relationship"
    and e2: "get_stripped data ''entity2'' = Inr entity2"
    and ne: "entity1 \<noteq> []" "relationship \<noteq> []" "entity2 \<noteq> []"
    and old: "edge_data g entity1 entity2 = Inr dd"
  shows "\<exists>dd'. edge_data (snd (add_relationship g data)) entity1 entity2 = Inr dd' \<and>
           relationship_of dd' = relationship \<and>
           number_of_edges (snd (add_relationship g data)) = number_of_edges g \<and>
           number_of_nodes (snd (add_relationship g data)) = number_of_nodes g"
proof -
  let ?attr = "[(''relationship'', relationship)]"
  have g': "snd (add_relationship g data) = add_edge entity1 entity2 ?attr g"
    using add_relationship_accepts[OF e1 r e2 ne, of g] by simp
  from old wf have ex: "map_of (adj_of (succ_d g) entity1) entity2 = Some dd"
    by (simp add: edge_data_iff)
  show ?thesis
    unfolding g'
    using edge_data_add_edge[OF wf, of entity1 entity2 ?attr]
      add_edge_existing(3,4)[OF wf ex, of ?attr]
    by simp
qed

theorem add_relationship_overwrites_witness:
  "\<exists>dd'. edge_data (snd (add_relationship knowledge_graph_init
             (PDict [(''entity1'', PStr ''John Doe''), (''relationship'', PStr ''studies''),
                     (''entity2'', PStr ''Computer Science'')])))
             ''John Doe'' ''Computer Science'' = Inr dd' \<and>
         relationship_of dd' = ''studies'' \<and>
         number_of_edges (snd (add_relationship knowledge_graph_init
             (PDict [(''entity1'', PStr ''John Doe''), (''relationship'', PStr ''studies''),
                     (''entity2'', PStr ''Computer Science'')]))) = 13"
proof -
  let ?data = "PDict [(''entity1'', PStr ''John Doe''), (''relationship'', PStr ''studies''),
                      (''entity2'', PStr ''Computer Science'')]"
  have e1: "get_stripped ?data ''entity1'' = Inr ''John Doe''" by code_simp
  have r: "get_stripped ?data ''relationship'' = Inr ''studies''" by code_simp
  have e2: "get_stripped ?data ''entity2'' = Inr ''Computer Science''" by code_simp
  have ne: "''John Doe'' \<noteq> []" "''studies'' \<noteq> []" "''Computer Science'' \<noteq> []" by simp_all
  have old: "edge_data knowledge_graph_init ''John Doe'' ''Computer Science'' =
               Inr [(''relationship'', ''enrolled_in'')]" by code_simp
  have n: "number_of_edges knowledge_graph_init = 13" by code_simp
  show ?thesis
    using add_relationship_overwrites[OF wf_sample e1 r e2 ne old] n by auto
qed

text \<open>
  C8. A field that is empty in the uploaded file is a missing value of the data frame, and
  \<^verbatim>\<open>str\<close> of a missing value is the text \<^verbatim>\<open>nan\<close>, which is not empty. The row
  \<^verbatim>\<open>,bad,Q\<close> is therefore not skipped: it is counted, and it adds an entity named
  \<^verbatim>\<open>nan\<close> with an edge to \<^verbatim>\<open>Q\<close>.
\<close>

theorem upload_csv_missing_value_added:
  "field (fst (fst (upload_csv knowledge_graph_init
      (Some (''relationships.csv'',
             Inr \<lparr>df_columns = [''Entity1'', ''Relationship'', ''Entity2''],
                  df_rows = [[CStr ''X'', CStr ''y'', CStr ''Z''],
                             [CNaN, CStr ''bad'', CStr ''Q'']]\<rparr>))))) ''added_count''
     = Some (PInt 2) \<and>
   field (fst (fst (upload_csv knowledge_graph_init
      (Some (''relationships.csv'',
             Inr \<lparr>df_columns = [''Entity1'', ''Relationship'', ''Entity2''],
                  df_rows = [[CStr ''X'', CStr ''y'', CStr ''Z''],
                             [CNaN, CStr ''bad'', CStr ''Q'']]\<rparr>))))) ''errors''
     = Some PNone \<and>
   edge_data (snd (upload_csv knowledge_graph_init
      (Some (''relationships.csv'',
             Inr \<lparr>df_columns = [''Entity1'', ''Relationship'', ''Entity2''],
                  df_rows = [[CStr ''X'', CStr ''y'', CStr ''Z''],
                             [CNaN, CStr ''bad'', CStr ''Q'']]\<rparr>)))) ''nan'' ''Q''
     = Inr [(''relationship'', ''bad'')]"
  by code_simp

end
